theory Spec2Isabelle
  imports Complex_Main
begin

section \<open>Data model of \<open>lint/file.go\<close>\<close>

text \<open>
  Go's \<open>int\<close> is modelled as \<open>int\<close>: the only arithmetic of the file is \<open>line + 1\<close> on a
  line number of a parsed file, which stays far below \<open>2^63\<close>. \<open>float64\<close> confidences are
  modelled as \<open>real\<close> (no NaN). The channel \<open>failures\<close> is the list of the values sent on
  it, in the order they are sent.
\<close>

text \<open>\<open>token.Position\<close> of the Go standard library.\<close>

record token_Position =
  Filename :: string
  Offset :: int
  Line :: int
  Column :: int

text \<open>\<open>FailurePosition\<close>: the range of a finding.\<close>

record FailurePosition =
  Start :: token_Position
  End :: token_Position

text \<open>\<open>ast.Node\<close>: the pipeline only calls \<open>Pos()\<close> and \<open>End()\<close> on it.\<close>

record Node =
  Node_Pos :: int
  Node_End :: int

text \<open>
  \<open>Failure\<close>. The field \<open>Node\<close> is \<open>None\<close> for Go's \<open>nil\<close>.
  Modelled from the spec: the declaration of \<open>Failure\<close> and its method \<open>IsInternal\<close> are
  not in \<open>lint/file.go\<close>; the spec gives a finding an "internal" flag, which is the field
  \<open>Internal\<close> here, read by \<open>IsInternal\<close>.
\<close>

record Failure =
  Failure :: string
  RuleName :: string
  Internal :: bool
  Position :: FailurePosition
  Node :: "Node option"
  Confidence :: real

definition IsInternal :: "Failure \<Rightarrow> bool" where
  "IsInternal failure = Internal failure"

text \<open>\<open>ast.Comment\<close> and \<open>ast.CommentGroup\<close> of the Go standard library: a comment starts at
  \<open>Slash\<close> and ends \<open>len(Text)\<close> later; a group ends where its last comment ends.\<close>

record Comment =
  Slash :: int
  Text :: string

definition Comment_Pos :: "Comment \<Rightarrow> int" where
  "Comment_Pos c = Slash c"

definition Comment_End :: "Comment \<Rightarrow> int" where
  "Comment_End c = Slash c + int (length (Text c))"

record CommentGroup =
  List :: "Comment list"

definition CommentGroup_End :: "CommentGroup \<Rightarrow> int" where
  "CommentGroup_End g = Comment_End (last (List g))"

text \<open>
  \<open>File\<close>: its name, the comment groups of its syntax tree (\<open>f.AST.Comments\<close>) and the
  position table of its package (\<open>f.Pkg.fset.Position\<close>).
\<close>

record File =
  Name :: string
  Comments :: "CommentGroup list"
  fset_Position :: "int \<Rightarrow> token_Position"

definition ToPosition :: "File \<Rightarrow> int \<Rightarrow> token_Position" where
  "ToPosition f pos = fset_Position f pos"

text \<open>
  Modelled from the spec: \<open>ToFailurePosition\<close> is declared outside \<open>lint/file.go\<close>; the spec
  says it resolves the start and the end of the range through the package's position context.
\<close>

definition ToFailurePosition :: "int \<Rightarrow> int \<Rightarrow> File \<Rightarrow> FailurePosition" where
  "ToFailurePosition start end_pos f = \<lparr>Start = ToPosition f start, End = ToPosition f end_pos\<rparr>"

text \<open>
  \<open>Rule\<close> is an interface with the methods \<open>Name()\<close> and \<open>Apply(file, arguments)\<close>;
  \<open>RuleConfig\<close> carries the arguments and decides \<open>MustExclude(name)\<close>; of \<open>Config\<close> the
  pipeline reads the rule configurations (a Go map: a missing key reads as the zero value,
  so the lookup is total), the key set of \<open>Directives\<close> and the confidence threshold.
\<close>

record 'a Rule =
  Rule_Name :: string
  Rule_Apply :: "File \<Rightarrow> 'a \<Rightarrow> Failure list"

record 'a RuleConfig =
  Arguments :: 'a
  MustExclude :: "string \<Rightarrow> bool"

record 'a Config =
  Rules :: "string \<Rightarrow> 'a RuleConfig"
  Directives :: "string set"
  Config_Confidence :: real

definition directiveSpecifyDisableReason :: string where
  "directiveSpecifyDisableReason = ''specify-disable-reason''"

record enableDisableConfig =
  enabled :: bool
  position :: int

record DisabledInterval =
  Interval_RuleName :: string
  From :: token_Position
  To :: token_Position

type_synonym enabledDisabledRulesMap = "string \<rightharpoonup> enableDisableConfig list"

type_synonym disabledIntervalsMap = "string \<rightharpoonup> DisabledInterval list"

definition MaxInt32 :: int where
  "MaxInt32 = 2147483647"

section \<open>Strings\<close>

text \<open>\<open>strings.Split(s, ",")\<close>: the pieces between the commas; never the empty list.\<close>

fun Split_comma :: "string \<Rightarrow> string list" where
  "Split_comma [] = [[]]"
| "Split_comma (c # cs) =
     (if c = CHR '','' then [] # Split_comma cs
      else (case Split_comma cs of [] \<Rightarrow> [[c]] | w # ws \<Rightarrow> (c # w) # ws))"

text \<open>\<open>strings.Trim(s, cutset)\<close>: drops the leading and trailing characters of the cutset.\<close>

definition Trim :: "string \<Rightarrow> string \<Rightarrow> string" where
  "Trim s cutset =
     rev (dropWhile (\<lambda>c. c \<in> set cutset) (rev (dropWhile (\<lambda>c. c \<in> set cutset) s)))"

section \<open>The directive grammar\<close>

text \<open>The class \<open>\s\<close> of Go's regexp syntax: tab, newline, form feed, carriage return, space.\<close>

definition is_space :: "char \<Rightarrow> bool" where
  "is_space c = (c = CHR 0x09 \<or> c = CHR 0x0A \<or> c = CHR 0x0C \<or> c = CHR 0x0D \<or> c = CHR '' '')"

text \<open>\<open>strip_prefix p s\<close>: the rest of \<open>s\<close> after the literal \<open>p\<close>, when \<open>s\<close> starts with it.\<close>

fun strip_prefix :: "string \<Rightarrow> string \<Rightarrow> string option" where
  "strip_prefix [] s = Some s"
| "strip_prefix (p # ps) [] = None"
| "strip_prefix (p # ps) (c # cs) = (if p = c then strip_prefix ps cs else None)"

text \<open>Group 1, \<open>(enable|disable)\<close>.\<close>

definition match_directive :: "string \<Rightarrow> (string \<times> string) option" where
  "match_directive s =
     (case strip_prefix ''enable'' s of
        Some r \<Rightarrow> Some (''enable'', r)
      | None \<Rightarrow>
          (case strip_prefix ''disable'' s of
             Some r \<Rightarrow> Some (''disable'', r)
           | None \<Rightarrow> None))"

text \<open>Group 2 in \<open>(?:-(line|next-line))?\<close>; an optional group that does not take part reads
  as the empty string.\<close>

definition match_modifier :: "string \<Rightarrow> string \<times> string" where
  "match_modifier s =
     (case strip_prefix ''-line'' s of
        Some r \<Rightarrow> (''line'', r)
      | None \<Rightarrow>
          (case strip_prefix ''-next-line'' s of
             Some r \<Rightarrow> (''next-line'', r)
           | None \<Rightarrow> ('''', s)))"

text \<open>Group 3 in \<open>(?::([^\s]+))?\<close>: after a colon, the longest run of non-space characters,
  which must not be empty.\<close>

definition match_rules :: "string \<Rightarrow> string \<times> string" where
  "match_rules s =
     (case s of
        [] \<Rightarrow> ('''', s)
      | c # cs \<Rightarrow>
          (if c = CHR '':'' \<and> takeWhile (\<lambda>x. \<not> is_space x) cs \<noteq> []
           then (takeWhile (\<lambda>x. \<not> is_space x) cs, dropWhile (\<lambda>x. \<not> is_space x) cs)
           else ('''', s)))"

text \<open>
  Group 4 in \<open>[\s]*(?: (.+))?$\<close>. When only white space is left, \<open>[\s]*\<close> takes it all and
  the group does not take part. Otherwise \<open>[\s]*\<close> gives back characters until it stops in
  front of a space character; the greedy star stops in front of the last space of the run,
  and the group is everything after that space up to the end of the text, which must hold
  no newline (\<open>.\<close> does not match one).
\<close>

definition match_reason :: "string \<Rightarrow> string option" where
  "match_reason s =
     (let ws = takeWhile is_space s; rest = dropWhile is_space s in
      if rest = [] then Some ''''
      else
        (let reason = rev (takeWhile (\<lambda>c. c \<noteq> CHR '' '') (rev ws)) @ rest in
         if CHR '' '' \<in> set ws \<and> CHR 0x0A \<notin> set reason then Some reason else None))"

text \<open>
  \<open>directiveRegexp.FindStringSubmatch\<close> for the expression
  \<^verbatim>\<open>^//[\s]*revive:(enable|disable)(?:-(line|next-line))?(?::([^\s]+))?[\s]*(?: (.+))?$\<close>:
  \<open>None\<close> when the text does not match, else the groups 1 to 4.
\<close>

definition directiveRegexp :: "string \<Rightarrow> (string \<times> string \<times> string \<times> string) option" where
  "directiveRegexp text =
     (case strip_prefix ''//'' text of
        None \<Rightarrow> None
      | Some s1 \<Rightarrow>
          (case strip_prefix ''revive:'' (dropWhile is_space s1) of
             None \<Rightarrow> None
           | Some s2 \<Rightarrow>
               (case match_directive s2 of
                  None \<Rightarrow> None
                | Some (directive, s3) \<Rightarrow>
                    (case match_modifier s3 of
                       (modifier, s4) \<Rightarrow>
                         (case match_rules s4 of
                            (rules, s5) \<Rightarrow>
                              (case match_reason s5 of
                                 None \<Rightarrow> None
                               | Some reason \<Rightarrow> Some (directive, modifier, rules, reason)))))))"

section \<open>The directive suppression engine: \<open>disabledIntervals\<close>\<close>

text \<open>
  The closures of \<open>disabledIntervals\<close> share the map \<open>enabledDisabledRulesMap\<close> and the
  channel; here each takes the map (and the values sent so far) and returns them updated.
\<close>

text \<open>\<open>handleConfig\<close>: a missing key is first bound to the empty list; then the event is
  appended unless one of the two guards returns early.\<close>

definition handleConfig ::
    "bool \<Rightarrow> int \<Rightarrow> string \<Rightarrow> enabledDisabledRulesMap \<Rightarrow> enabledDisabledRulesMap" where
  "handleConfig isEnabled line name m =
     (let existing = (case m name of None \<Rightarrow> [] | Some e \<Rightarrow> e);
          m1 = (case m name of None \<Rightarrow> m(name \<mapsto> []) | Some e \<Rightarrow> m)
      in if (length existing > 1 \<and> enabled (last existing) = isEnabled) \<or>
            (length existing = 0 \<and> isEnabled)
         then m1
         else m1(name \<mapsto> existing @ [\<lparr>enabled = isEnabled, position = line\<rparr>]))"

text \<open>The body of the loop of \<open>handleRules\<close>, for one rule name.\<close>

definition handleRule ::
    "string \<Rightarrow> bool \<Rightarrow> int \<Rightarrow> string \<Rightarrow> enabledDisabledRulesMap \<Rightarrow> enabledDisabledRulesMap" where
  "handleRule modifier isEnabled line name m =
     (if modifier = ''line'' then
        handleConfig (\<not> isEnabled) line name (handleConfig isEnabled line name m)
      else if modifier = ''next-line'' then
        handleConfig (\<not> isEnabled) (line + 1) name (handleConfig isEnabled (line + 1) name m)
      else handleConfig isEnabled line name m)"

fun handleRules ::
    "string \<Rightarrow> bool \<Rightarrow> int \<Rightarrow> string list \<Rightarrow> enabledDisabledRulesMap \<Rightarrow> enabledDisabledRulesMap" where
  "handleRules modifier isEnabled line [] m = m"
| "handleRules modifier isEnabled line (name # ruleNames) m =
     handleRules modifier isEnabled line ruleNames (handleRule modifier isEnabled line name m)"

text \<open>The rule names of group 3: split at the commas, newlines trimmed, empty names dropped.\<close>

definition ruleNamesOf :: "string \<Rightarrow> string list" where
  "ruleNamesOf rulesText =
     filter (\<lambda>name. name \<noteq> '''') (map (\<lambda>name. Trim name [CHR 0x0A]) (Split_comma rulesText))"

text \<open>The finding sent for a \<open>disable\<close> directive without a reason.\<close>

definition disableReasonFailure :: "File \<Rightarrow> Comment \<Rightarrow> Failure" where
  "disableReasonFailure f c =
     \<lparr>Failure = ''reason of lint disabling not found'',
      RuleName = directiveSpecifyDisableReason,
      Internal = False,
      Position = ToFailurePosition (Comment_Pos c) (Comment_End c) f,
      Node = Some \<lparr>Node_Pos = Comment_Pos c, Node_End = Comment_End c\<rparr>,
      Confidence = 1\<rparr>"

text \<open>The body of the loop of \<open>handleComment\<close>, for one comment of the group. The state is
  the map and the findings sent on the channel.\<close>

definition handleCommentLine ::
    "File \<Rightarrow> 'a Rule list \<Rightarrow> bool \<Rightarrow> int \<Rightarrow> Comment \<Rightarrow>
     enabledDisabledRulesMap \<times> Failure list \<Rightarrow> enabledDisabledRulesMap \<times> Failure list" where
  "handleCommentLine f rules mustSpecifyDisableReason line c st =
     (case directiveRegexp (Text c) of
        None \<Rightarrow> st
      | Some (directive, modifier, rulesText, reason) \<Rightarrow>
          (let ruleNames = ruleNamesOf rulesText;
               mustCheckDisablingReason = (mustSpecifyDisableReason \<and> directive = ''disable'')
           in if mustCheckDisablingReason \<and> Trim reason '' '' = ''''
              then (fst st, snd st @ [disableReasonFailure f c])
              else
                (let ruleNames' =
                       (if length ruleNames = 0 then ruleNames @ map Rule_Name rules
                        else ruleNames)
                 in (handleRules modifier (directive = ''enable'') line ruleNames' (fst st),
                     snd st))))"

fun handleCommentLines ::
    "File \<Rightarrow> 'a Rule list \<Rightarrow> bool \<Rightarrow> int \<Rightarrow> Comment list \<Rightarrow>
     enabledDisabledRulesMap \<times> Failure list \<Rightarrow> enabledDisabledRulesMap \<times> Failure list" where
  "handleCommentLines f rules must line [] st = st"
| "handleCommentLines f rules must line (c # comments) st =
     handleCommentLines f rules must line comments (handleCommentLine f rules must line c st)"

definition handleComment ::
    "File \<Rightarrow> 'a Rule list \<Rightarrow> bool \<Rightarrow> CommentGroup \<Rightarrow> int \<Rightarrow>
     enabledDisabledRulesMap \<times> Failure list \<Rightarrow> enabledDisabledRulesMap \<times> Failure list" where
  "handleComment f rules must c line st = handleCommentLines f rules must line (List c) st"

text \<open>The loop over \<open>f.AST.Comments\<close> at the end of \<open>disabledIntervals\<close>.\<close>

fun handleComments ::
    "File \<Rightarrow> 'a Rule list \<Rightarrow> bool \<Rightarrow> CommentGroup list \<Rightarrow>
     enabledDisabledRulesMap \<times> Failure list \<Rightarrow> enabledDisabledRulesMap \<times> Failure list" where
  "handleComments f rules must [] st = st"
| "handleComments f rules must (c # cs) st =
     handleComments f rules must cs
       (handleComment f rules must c (Line (ToPosition f (CommentGroup_End c))) st)"

text \<open>
  The inner loop of \<open>getEnabledDisabledIntervals\<close> over the events of one rule name, from
  index \<open>i\<close> on with the intervals built so far. An even index appends an interval that is
  open up to \<open>math.MaxInt32\<close>; an odd index closes the last interval. (At an odd index the
  result is never empty, since index 0 appends; Go would panic on an empty one.)
\<close>

definition openInterval :: "File \<Rightarrow> string \<Rightarrow> enableDisableConfig \<Rightarrow> DisabledInterval" where
  "openInterval f ruleName e =
     \<lparr>Interval_RuleName = ruleName,
      From = \<lparr>Filename = Name f, Offset = 0, Line = position e, Column = 0\<rparr>,
      To = \<lparr>Filename = Name f, Offset = 0, Line = MaxInt32, Column = 0\<rparr>\<rparr>"

definition closeLast :: "DisabledInterval list \<Rightarrow> int \<Rightarrow> DisabledInterval list" where
  "closeLast ruleResult line =
     (case rev ruleResult of
        [] \<Rightarrow> ruleResult
      | x # xs \<Rightarrow> rev xs @ [x\<lparr>To := (To x)\<lparr>Line := line\<rparr>\<rparr>])"

fun intervalsFrom ::
    "File \<Rightarrow> string \<Rightarrow> nat \<Rightarrow> enableDisableConfig list \<Rightarrow> DisabledInterval list \<Rightarrow>
     DisabledInterval list" where
  "intervalsFrom f ruleName i [] ruleResult = ruleResult"
| "intervalsFrom f ruleName i (e # disabledArr) ruleResult =
     intervalsFrom f ruleName (Suc i) disabledArr
       (if i mod 2 = 0 then ruleResult @ [openInterval f ruleName e]
        else closeLast ruleResult (position e))"

text \<open>
  \<open>getEnabledDisabledIntervals\<close>: Go visits the keys of a map in an order of its choice;
  \<open>keys\<close> is that order.
\<close>

fun getEnabledDisabledIntervals ::
    "File \<Rightarrow> enabledDisabledRulesMap \<Rightarrow> string list \<Rightarrow> disabledIntervalsMap \<Rightarrow>
     disabledIntervalsMap" where
  "getEnabledDisabledIntervals f m [] result = result"
| "getEnabledDisabledIntervals f m (ruleName # keys) result =
     getEnabledDisabledIntervals f m keys
       (case m ruleName of
          None \<Rightarrow> result
        | Some disabledArr \<Rightarrow> result(ruleName \<mapsto> intervalsFrom f ruleName 0 disabledArr []))"

text \<open>\<open>keys\<close> is an order in which Go may visit the map \<open>m\<close>: every key once.\<close>

definition range_order :: "string list \<Rightarrow> enabledDisabledRulesMap \<Rightarrow> bool" where
  "range_order keys m = (distinct keys \<and> set keys = dom m)"

text \<open>\<open>disabledIntervals\<close>: the map of intervals and the findings sent on the channel.\<close>

definition disabledIntervals ::
    "File \<Rightarrow> 'a Rule list \<Rightarrow> bool \<Rightarrow> string list \<Rightarrow> disabledIntervalsMap \<times> Failure list" where
  "disabledIntervals f rules mustSpecifyDisableReason keys =
     (let st = handleComments f rules mustSpecifyDisableReason (Comments f) (Map.empty, [])
      in (getEnabledDisabledIntervals f (fst st) keys Map.empty, snd st))"

section \<open>\<open>filterFailures\<close>\<close>

text \<open>The inner loop: \<open>include\<close> stays true unless the start line or the end line of the
  finding lies in one of the intervals.\<close>

fun includeFailure :: "int \<Rightarrow> int \<Rightarrow> DisabledInterval list \<Rightarrow> bool" where
  "includeFailure fStart fEnd [] = True"
| "includeFailure fStart fEnd (interval # intervals) =
     (if (fStart \<ge> Line (From interval) \<and> fStart \<le> Line (To interval)) \<or>
         (fEnd \<ge> Line (From interval) \<and> fEnd \<le> Line (To interval))
      then False
      else includeFailure fStart fEnd intervals)"

fun filterFailures :: "Failure list \<Rightarrow> disabledIntervalsMap \<Rightarrow> Failure list" where
  "filterFailures [] disabled = []"
| "filterFailures (failure # failures) disabled =
     (case disabled (RuleName failure) of
        None \<Rightarrow> failure # filterFailures failures disabled
      | Some intervals \<Rightarrow>
          (if includeFailure (Line (Start (Position failure))) (Line (End (Position failure)))
                intervals
           then failure # filterFailures failures disabled
           else filterFailures failures disabled))"

section \<open>The rule application pipeline: \<open>lint\<close>\<close>

text \<open>The normalisation of one finding that is not internal.\<close>

definition normalizeFailure :: "File \<Rightarrow> 'a Rule \<Rightarrow> Failure \<Rightarrow> Failure" where
  "normalizeFailure f currentRule failure =
     (let failure1 =
            (if RuleName failure = '''' then failure\<lparr>RuleName := Rule_Name currentRule\<rparr>
             else failure)
      in case Node failure1 of
           None \<Rightarrow> failure1
         | Some n \<Rightarrow> failure1\<lparr>Position := ToFailurePosition (Node_Pos n) (Node_End n) f\<rparr>)"

text \<open>The first inner loop of \<open>lint\<close>: \<open>Inl\<close> is the early return with the error made of
  the message of the internal finding.\<close>

fun normalizeFailures :: "File \<Rightarrow> 'a Rule \<Rightarrow> Failure list \<Rightarrow> string + Failure list" where
  "normalizeFailures f currentRule [] = Inr []"
| "normalizeFailures f currentRule (failure # currentFailures) =
     (if IsInternal failure then Inl (Failure failure)
      else
        (case normalizeFailures f currentRule currentFailures of
           Inl err \<Rightarrow> Inl err
         | Inr rest \<Rightarrow> Inr (normalizeFailure f currentRule failure # rest)))"

text \<open>The second inner loop: the confidence gate in front of the channel.\<close>

fun sendConfident :: "real \<Rightarrow> Failure list \<Rightarrow> Failure list" where
  "sendConfident threshold [] = []"
| "sendConfident threshold (failure # currentFailures) =
     (if Confidence failure \<ge> threshold
      then failure # sendConfident threshold currentFailures
      else sendConfident threshold currentFailures)"

text \<open>The loop over the rules. The result is the error (\<open>None\<close> for \<open>nil\<close>) and the findings
  sent on the channel.\<close>

fun lintRules ::
    "File \<Rightarrow> 'a Config \<Rightarrow> disabledIntervalsMap \<Rightarrow> 'a Rule list \<Rightarrow> Failure list \<Rightarrow>
     string option \<times> Failure list" where
  "lintRules f config disabled [] sent = (None, sent)"
| "lintRules f config disabled (currentRule # rules) sent =
     (let ruleConfig = Rules config (Rule_Name currentRule) in
      if MustExclude ruleConfig (Name f) then lintRules f config disabled rules sent
      else
        (case normalizeFailures f currentRule
                (Rule_Apply currentRule f (Arguments ruleConfig)) of
           Inl err \<Rightarrow> (Some err, sent)
         | Inr currentFailures \<Rightarrow>
             lintRules f config disabled rules
               (sent @ sendConfident (Config_Confidence config)
                         (filterFailures currentFailures disabled))))"

definition lint ::
    "File \<Rightarrow> 'a Rule list \<Rightarrow> 'a Config \<Rightarrow> string list \<Rightarrow> string option \<times> Failure list" where
  "lint f rules config keys =
     (let mustSpecifyDisableReason = (directiveSpecifyDisableReason \<in> Directives config);
          di = disabledIntervals f rules mustSpecifyDisableReason keys
      in lintRules f config (fst di) rules (snd di))"

section \<open>Notions used to state the properties\<close>

text \<open>The toggle events recorded for a rule name; a missing key reads as no event.\<close>

definition eventsOf :: "enabledDisabledRulesMap \<Rightarrow> string \<Rightarrow> enableDisableConfig list" where
  "eventsOf m name = (case m name of None \<Rightarrow> [] | Some e \<Rightarrow> e)"

text \<open>The state pending for a rule: enabled before any event, else the state of the last
  event.\<close>

definition pendingEnabled :: "enableDisableConfig list \<Rightarrow> bool" where
  "pendingEnabled evs = (evs = [] \<or> enabled (last evs))"

text \<open>No disable is pending: the events pair up and the rule is enabled.\<close>

definition noPendingDisable :: "enableDisableConfig list \<Rightarrow> bool" where
  "noPendingDisable evs = (even (length evs) \<and> pendingEnabled evs)"

text \<open>The interval of a rule from line \<open>a\<close> to line \<open>b\<close>, as \<open>getEnabledDisabledIntervals\<close>
  builds it.\<close>

definition closedInterval :: "File \<Rightarrow> string \<Rightarrow> int \<Rightarrow> int \<Rightarrow> DisabledInterval" where
  "closedInterval f ruleName a b =
     \<lparr>Interval_RuleName = ruleName,
      From = \<lparr>Filename = Name f, Offset = 0, Line = a, Column = 0\<rparr>,
      To = \<lparr>Filename = Name f, Offset = 0, Line = b, Column = 0\<rparr>\<rparr>"

text \<open>The first and the last line of the range of a finding.\<close>

definition startLine :: "Failure \<Rightarrow> int" where
  "startLine failure = Line (Start (Position failure))"

definition endLine :: "Failure \<Rightarrow> int" where
  "endLine failure = Line (End (Position failure))"



text \<open>The test of \<open>filterFailures\<close> for one finding.\<close>

definition keptBy :: "disabledIntervalsMap \<Rightarrow> Failure \<Rightarrow> bool" where
  "keptBy di failure =
     (case di (RuleName failure) of
        None \<Rightarrow> True
      | Some intervals \<Rightarrow> includeFailure (startLine failure) (endLine failure) intervals)"

text \<open>The map of intervals of a map of events, key by key: what \<open>getEnabledDisabledIntervals\<close>
  returns whatever the order of its visit.\<close>

definition intervalsOfEvents :: "File \<Rightarrow> enabledDisabledRulesMap \<Rightarrow> disabledIntervalsMap" where
  "intervalsOfEvents f m =
     (\<lambda>name. map_option (\<lambda>disabledArr. intervalsFrom f name 0 disabledArr []) (m name))"




text \<open>The rule is applied to the file and one of its findings is internal.\<close>

definition yieldsInternal :: "File \<Rightarrow> 'a Config \<Rightarrow> 'a Rule \<Rightarrow> bool" where
  "yieldsInternal f config r =
     (\<not> MustExclude (Rules config (Rule_Name r)) (Name f) \<and>
      (\<exists>failure \<in> set (Rule_Apply r f (Arguments (Rules config (Rule_Name r)))).
         IsInternal failure))"

text \<open>The events \<open>disabledIntervals\<close> has recorded when it calls
  \<open>getEnabledDisabledIntervals\<close>.\<close>

definition eventsOfFile :: "File \<Rightarrow> 'a Rule list \<Rightarrow> bool \<Rightarrow> enabledDisabledRulesMap" where
  "eventsOfFile f rules mustSpecifyDisableReason =
     fst (handleComments f rules mustSpecifyDisableReason (Comments f) (Map.empty, []))"

section \<open>The grammars as regular expressions\<close>

text \<open>
  The regular expressions of the two grammars, over the character classes \<open>\s\<close>, \<open>[^\s]\<close>
  and \<open>.\<close>, with literals, \<open>X*\<close> and \<open>X+\<close> on a class, sequence, alternative and option.
\<close>

datatype cclass = Space | NonSpace | Dot

datatype rexp =
    Lit string
  | Many cclass
  | Many1 cclass
  | Seq rexp rexp
  | Alt rexp rexp
  | Opt rexp

fun in_class :: "cclass \<Rightarrow> char \<Rightarrow> bool" where
  "in_class Space c = is_space c"
| "in_class NonSpace c = (\<not> is_space c)"
| "in_class Dot c = (c \<noteq> CHR 0x0A)"

text \<open>\<open>matches r w\<close>: the whole of \<open>w\<close> is a word of \<open>r\<close>.\<close>

fun matches :: "rexp \<Rightarrow> string \<Rightarrow> bool" where
  "matches (Lit s) w = (w = s)"
| "matches (Many k) w = list_all (in_class k) w"
| "matches (Many1 k) w = (w \<noteq> [] \<and> list_all (in_class k) w)"
| "matches (Seq r s) w = (\<exists>i \<in> {0 .. length w}. matches r (take i w) \<and> matches s (drop i w))"
| "matches (Alt r s) w = (matches r w \<or> matches s w)"
| "matches (Opt r) w = (w = [] \<or> matches r w)"

text \<open>The grammar of the specification:
  \<^verbatim>\<open>//\s*revive:(enable|disable)(-(line|next-line))?(:[^\s]+)?(\s+.+)?\<close>\<close>

definition spec_grammar :: rexp where
  "spec_grammar =
     Seq (Lit ''//'') (Seq (Many Space) (Seq (Lit ''revive:'')
       (Seq (Alt (Lit ''enable'') (Lit ''disable''))
         (Seq (Opt (Seq (Lit ''-'') (Alt (Lit ''line'') (Lit ''next-line''))))
           (Seq (Opt (Seq (Lit '':'') (Many1 NonSpace)))
             (Opt (Seq (Many1 Space) (Many1 Dot))))))))"

text \<open>The expression of \<open>directiveRegexp\<close>, which is anchored at both ends:
  \<^verbatim>\<open>^//[\s]*revive:(enable|disable)(?:-(line|next-line))?(?::([^\s]+))?[\s]*(?: (.+))?$\<close>\<close>

definition directive_grammar :: rexp where
  "directive_grammar =
     Seq (Lit ''//'') (Seq (Many Space) (Seq (Lit ''revive:'')
       (Seq (Alt (Lit ''enable'') (Lit ''disable''))
         (Seq (Opt (Seq (Lit ''-'') (Alt (Lit ''line'') (Lit ''next-line''))))
           (Seq (Opt (Seq (Lit '':'') (Many1 NonSpace)))
             (Seq (Many Space) (Opt (Seq (Lit '' '') (Many1 Dot)))))))))"

section \<open>Sample inputs\<close>

text \<open>A position table with lines of 100 bytes, a file over it, and a finding of a rule on
  given lines.\<close>

definition samplePosition :: "int \<Rightarrow> token_Position" where
  "samplePosition pos =
     \<lparr>Filename = ''a.go'', Offset = pos, Line = pos div 100 + 1, Column = pos mod 100 + 1\<rparr>"

definition sampleFile :: "CommentGroup list \<Rightarrow> File" where
  "sampleFile groups = \<lparr>Name = ''a.go'', Comments = groups, fset_Position = samplePosition\<rparr>"

definition sampleFinding :: "string \<Rightarrow> int \<Rightarrow> int \<Rightarrow> Failure" where
  "sampleFinding ruleName a b =
     \<lparr>Failure = ''found'', RuleName = ruleName, Internal = False,
      Position = \<lparr>Start = \<lparr>Filename = ''a.go'', Offset = 0, Line = a, Column = 1\<rparr>,
                  End = \<lparr>Filename = ''a.go'', Offset = 0, Line = b, Column = 1\<rparr>\<rparr>,
      Node = None, Confidence = 1\<rparr>"

text \<open>Rules that return given findings, and a configuration without exclusions.\<close>

definition sampleRule :: "string \<Rightarrow> Failure list \<Rightarrow> unit Rule" where
  "sampleRule name failures = \<lparr>Rule_Name = name, Rule_Apply = (\<lambda>f arguments. failures)\<rparr>"

definition sampleConfig :: "string set \<Rightarrow> real \<Rightarrow> unit Config" where
  "sampleConfig directives confidence =
     \<lparr>Rules = (\<lambda>name. \<lparr>Arguments = (), MustExclude = (\<lambda>name. False)\<rparr>),
      Directives = directives,
      Config_Confidence = confidence\<rparr>"


text \<open>A file with \<open>//revive:disable:R\<close> on line 1 and again on line 3.\<close>

definition twoDisablesSample :: File where
  "twoDisablesSample =
     sampleFile [\<lparr>List = [\<lparr>Slash = 0, Text = ''//revive:disable:R''\<rparr>]\<rparr>,
                 \<lparr>List = [\<lparr>Slash = 200, Text = ''//revive:disable:R''\<rparr>]\<rparr>]"

text \<open>A finding of rule \<open>R\<close> on line 7 that carries a node of line 2.\<close>

definition presetFinding :: Failure where
  "presetFinding = (sampleFinding ''R'' 7 7)\<lparr>Node := Some \<lparr>Node_Pos = 120, Node_End = 130\<rparr>\<rparr>"

text \<open>An internal finding of rule \<open>B\<close> on line 3, of confidence 0.\<close>

definition internalFinding :: Failure where
  "internalFinding =
     (sampleFinding ''B'' 3 3)\<lparr>Failure := ''fault'', Internal := True, Confidence := 0\<rparr>"

text \<open>A file that disables rule \<open>B\<close> from line 1 on.\<close>

definition abortSample :: File where
  "abortSample = sampleFile [\<lparr>List = [\<lparr>Slash = 0, Text = ''//revive:disable:B''\<rparr>]\<rparr>]"

text \<open>A file that disables the rules \<open>R\<close> and \<open>Q\<close> on line 2 and enables \<open>Q\<close> on line 6.\<close>

definition twoRulesSample :: File where
  "twoRulesSample =
     sampleFile [\<lparr>List = [\<lparr>Slash = 100, Text = ''//revive:disable:R,Q''\<rparr>]\<rparr>,
                 \<lparr>List = [\<lparr>Slash = 500, Text = ''//revive:enable:Q''\<rparr>]\<rparr>]"







text \<open>A file with \<open>//revive:disable:R\<close> on line 3, \<open>//revive:enable:R\<close> on line 7 and
  \<open>//revive:enable:R\<close> again on line 9; and a file with \<open>//revive:enable-line:R\<close> on
  line 4.\<close>

definition enableAfterPairSample :: File where
  "enableAfterPairSample =
     sampleFile [\<lparr>List = [\<lparr>Slash = 200, Text = ''//revive:disable:R''\<rparr>]\<rparr>,
                 \<lparr>List = [\<lparr>Slash = 600, Text = ''//revive:enable:R''\<rparr>]\<rparr>,
                 \<lparr>List = [\<lparr>Slash = 800, Text = ''//revive:enable:R''\<rparr>]\<rparr>]"

definition enableLineSample :: File where
  "enableLineSample = sampleFile [\<lparr>List = [\<lparr>Slash = 300, Text = ''//revive:enable-line:R''\<rparr>]\<rparr>]"

section \<open>Lemmas\<close>

subsection \<open>Evaluation\<close>

text \<open>The definitions that the evaluation of the matcher and of the engine on a given
  input unfolds.\<close>

lemmas directive_simps =
  directiveRegexp_def match_directive_def match_modifier_def match_rules_def match_reason_def
  is_space_def ruleNamesOf_def Trim_def

lemmas pipeline_simps =
  disabledIntervals_def handleComment_def handleCommentLine_def handleRule_def handleConfig_def
  CommentGroup_End_def Comment_End_def Comment_Pos_def ToPosition_def sampleFile_def samplePosition_def
  openInterval_def closeLast_def closedInterval_def MaxInt32_def

subsection \<open>The intervals of a list of events\<close>

text \<open>
  \<open>getEnabledDisabledIntervals\<close> binds every key it visits to the intervals of its events,
  so for every order of the visit the result is \<open>intervalsOfEvents\<close>. Events appended to a
  list of even length add their own intervals at the end: two events a closed interval, one
  event an interval that is open up to \<open>math.MaxInt32\<close>.
\<close>

lemma getEnabledDisabledIntervals_lookup:
  "getEnabledDisabledIntervals f m keys result name =
     (if name \<in> set keys
      then (case m name of
              None \<Rightarrow> result name
            | Some disabledArr \<Rightarrow> Some (intervalsFrom f name 0 disabledArr []))
      else result name)"
  by (induction keys arbitrary: result) (auto split: option.splits)

lemma getEnabledDisabledIntervals_range:
  assumes "range_order keys m"
  shows "getEnabledDisabledIntervals f m keys Map.empty name =
           map_option (\<lambda>disabledArr. intervalsFrom f name 0 disabledArr []) (m name)"
  using assms
  by (auto simp: getEnabledDisabledIntervals_lookup range_order_def split: option.splits)

lemma getEnabledDisabledIntervals_eq:
  "range_order keys m \<Longrightarrow> getEnabledDisabledIntervals f m keys Map.empty = intervalsOfEvents f m"
  by (rule ext) (simp add: getEnabledDisabledIntervals_range intervalsOfEvents_def)

lemma intervalsOfEvents_upd:
  "intervalsOfEvents f (m(R \<mapsto> evs)) = (intervalsOfEvents f m)(R \<mapsto> intervalsFrom f R 0 evs [])"
  by (rule ext) (simp add: intervalsOfEvents_def)




lemma closeLast_append: "acc \<noteq> [] \<Longrightarrow> closeLast (acc0 @ acc) l = acc0 @ closeLast acc l"
  by (cases acc rule: rev_cases) (auto simp: closeLast_def)





lemma closedInterval_lines [simp]:
  "Line (From (closedInterval f n a b)) = a" "Line (To (closedInterval f n a b)) = b"
  by (simp_all add: closedInterval_def)

subsection \<open>Toggle events\<close>

text \<open>
  \<open>handleConfig\<close> rebinds the rule name, to the same events when one of its guards
  returns early and to one more event otherwise. While no disable is pending, a disable is
  appended, and the enable that follows it is appended too.
\<close>

lemma handleConfig_eq:
  "handleConfig isEnabled line name m =
     m(name \<mapsto>
        (if (length (eventsOf m name) > 1 \<and> enabled (last (eventsOf m name)) = isEnabled) \<or>
            (eventsOf m name = [] \<and> isEnabled)
         then eventsOf m name
         else eventsOf m name @ [\<lparr>enabled = isEnabled, position = line\<rparr>]))"
  by (auto simp: handleConfig_def eventsOf_def Let_def fun_upd_idem split: option.splits)

lemma eventsOf_upd [simp]: "eventsOf (m(name \<mapsto> evs)) name = evs"
  by (simp add: eventsOf_def)



lemma handleConfig_dedup:
  assumes "length (eventsOf m name) \<noteq> 1"
      and "pendingEnabled (eventsOf m name) = isEnabled"
  shows "eventsOf (handleConfig isEnabled line name m) name = eventsOf m name"
  using assms by (cases "eventsOf m name") (auto simp: handleConfig_eq pendingEnabled_def)





lemma handleCommentLine_fst_applied:
  assumes "directiveRegexp (Text c) = Some (directive, modifier, rulesText, reason)"
      and "ruleNamesOf rulesText = [R]"
      and "\<not> (must \<and> directive = ''disable'' \<and> Trim reason '' '' = '''')"
  shows "handleCommentLine f rules must line c st =
           (handleRule modifier (directive = ''enable'') line R (fst st), snd st)"
  using assms by (auto simp: handleCommentLine_def Let_def)

lemma handleCommentLine_policy:
  assumes "directiveRegexp (Text c) = Some (''disable'', '''', rulesText, reason)"
  shows "handleCommentLine f rules True line c (m, sent) =
           (if Trim reason '' '' = '''' then (m, sent @ [disableReasonFailure f c])
            else (handleRules '''' False line
                    (if ruleNamesOf rulesText = [] then map Rule_Name rules
                     else ruleNamesOf rulesText) m,
                  sent)) \<and>
         Confidence (disableReasonFailure f c) = 1 \<and>
         RuleName (disableReasonFailure f c) = ''specify-disable-reason'' \<and>
         Position (disableReasonFailure f c) =
           \<lparr>Start = fset_Position f (Slash c),
            End = fset_Position f (Slash c + int (length (Text c)))\<rparr>"
  using assms
  by (simp add: handleCommentLine_def Let_def disableReasonFailure_def
      directiveSpecifyDisableReason_def ToFailurePosition_def ToPosition_def Comment_Pos_def
      Comment_End_def)

lemma dom_handleConfig: "dom (handleConfig isEnabled line name m) = insert name (dom m)"
  by (simp add: handleConfig_eq)

lemma finite_dom_handleRule:
  "finite (dom m) \<Longrightarrow> finite (dom (handleRule modifier isEnabled line name m))"
  by (simp add: handleRule_def dom_handleConfig)

lemma finite_dom_handleRules:
  "finite (dom m) \<Longrightarrow> finite (dom (handleRules modifier isEnabled line names m))"
  by (induction names arbitrary: m) (simp_all add: finite_dom_handleRule)

lemma finite_dom_handleCommentLine:
  "finite (dom (fst st)) \<Longrightarrow> finite (dom (fst (handleCommentLine f rules must line c st)))"
  by (simp add: handleCommentLine_def Let_def finite_dom_handleRules split: option.splits prod.splits)

lemma finite_dom_handleCommentLines:
  "finite (dom (fst st)) \<Longrightarrow> finite (dom (fst (handleCommentLines f rules must line cs st)))"
  by (induction cs arbitrary: st) (simp_all add: finite_dom_handleCommentLine)

lemma finite_dom_handleComments:
  "finite (dom (fst st)) \<Longrightarrow> finite (dom (fst (handleComments f rules must gs st)))"
  by (induction gs arbitrary: st) (simp_all add: handleComment_def finite_dom_handleCommentLines)

lemma range_order_exists: "finite (dom m) \<Longrightarrow> \<exists>keys. range_order keys m"
  using finite_distinct_list [of "dom m"] by (auto simp: range_order_def)

subsection \<open>The suppression step\<close>



lemma filterFailures_filter: "filterFailures xs di = filter (keptBy di) xs"
  by (induction xs) (simp_all add: keptBy_def startLine_def endLine_def split: option.splits)







lemma keptBy_empty_entry: "keptBy (di(R \<mapsto> [])) x = keptBy (di(R := None)) x"
  by (simp add: keptBy_def)

lemma filterFailures_empty_entry:
  "filterFailures xs (di(R \<mapsto> [])) = filterFailures xs (di(R := None))"
proof -
  have "keptBy (di(R \<mapsto> [])) = keptBy (di(R := None))"
    by (rule ext) (rule keptBy_empty_entry)
  then show ?thesis by (simp add: filterFailures_filter)
qed

lemma filter_rule_keptBy:
  assumes "di R = Some []"
  shows "filter (\<lambda>x. RuleName x = R) (filterFailures xs di) = filter (\<lambda>x. RuleName x = R) xs"
proof -
  have "(RuleName x = R \<and> keptBy di x) = (RuleName x = R)" for x
    using assms by (auto simp: keptBy_def)
  then show ?thesis by (simp add: filterFailures_filter conj_commute)
qed

lemma filterFailures_empty_list:
  assumes "di R = Some []"
  shows "filterFailures xs di = filterFailures xs (di(R := None))"
proof -
  from assms have "di = (di(R := None))(R \<mapsto> [])" by auto
  then have "filterFailures xs di = filterFailures xs ((di(R := None))(R \<mapsto> []))" by simp
  then show ?thesis by (simp add: filterFailures_empty_entry)
qed

subsection \<open>The pipeline\<close>

text \<open>The first loop of \<open>lint\<close> fails at the first internal finding; rules that yield none
  let the loop over the rules go on.\<close>

lemma normalizeFailures_find:
  "normalizeFailures f r xs =
     (case find IsInternal xs of
        Some x \<Rightarrow> Inl (Failure x)
      | None \<Rightarrow> Inr (map (normalizeFailure f r) xs))"
  by (induction xs) (simp_all split: option.splits)

lemma lintRules_no_internal:
  "\<forall>p \<in> set pre. \<not> yieldsInternal f config p \<Longrightarrow>
     lintRules f config di (pre @ rest) sent =
       lintRules f config di rest (snd (lintRules f config di pre sent))"
proof (induction pre arbitrary: sent)
  case Nil
  then show ?case by simp
next
  case (Cons p pre)
  then have IH: "lintRules f config di (pre @ rest) s =
       lintRules f config di rest (snd (lintRules f config di pre s))" for s
    by simp
  from Cons.prems have "\<not> yieldsInternal f config p" by simp
  then have "MustExclude (Rules config (Rule_Name p)) (Name f) \<or>
     find IsInternal (Rule_Apply p f (Arguments (Rules config (Rule_Name p)))) = None"
    by (auto simp: yieldsInternal_def find_None_iff)
  then show ?case
    by (auto simp: Let_def IH normalizeFailures_find)
qed

lemma lintRules_abort:
  assumes before: "\<forall>p \<in> set pre. \<not> yieldsInternal f config p"
      and applied: "\<not> MustExclude (Rules config (Rule_Name r)) (Name f)"
      and internal: "find IsInternal (Rule_Apply r f (Arguments (Rules config (Rule_Name r)))) = Some x"
  shows "lintRules f config di (pre @ r # post) sent =
           (Some (Failure x), snd (lintRules f config di pre sent))"
  using applied internal
  by (simp add: lintRules_no_internal [OF before] normalizeFailures_find Let_def)

lemma lintRules_error_iff:
  "(fst (lintRules f config di rules sent) \<noteq> None) = (\<exists>r \<in> set rules. yieldsInternal f config r)"
proof (cases "\<exists>r \<in> set rules. yieldsInternal f config r")
  case True
  then obtain pre r post where rules: "rules = pre @ r # post"
    and r: "yieldsInternal f config r"
    and before: "\<forall>p \<in> set pre. \<not> yieldsInternal f config p"
    using split_list_first_prop [of rules "yieldsInternal f config"] by blast
  from r have applied: "\<not> MustExclude (Rules config (Rule_Name r)) (Name f)"
    by (simp add: yieldsInternal_def)
  from r obtain x where
    "find IsInternal (Rule_Apply r f (Arguments (Rules config (Rule_Name r)))) = Some x"
    by (cases "find IsInternal (Rule_Apply r f (Arguments (Rules config (Rule_Name r))))")
       (auto simp: yieldsInternal_def find_None_iff)
  from lintRules_abort [OF before applied this] True show ?thesis
    by (simp add: rules)
next
  case False
  then have "\<forall>p \<in> set rules. \<not> yieldsInternal f config p" by blast
  from lintRules_no_internal [OF this, of di "[]" sent]
  have "fst (lintRules f config di rules sent) = None" by (metis append_Nil2 fst_conv lintRules.simps(1))
  with False show ?thesis by simp
qed

subsection \<open>The matcher and the grammar of the directives\<close>

text \<open>
  \<open>directiveRegexp\<close> returns groups exactly for the words of \<open>directive_grammar\<close>: when it
  returns groups the text is made of them (\<open>directiveRegexp_SomeD\<close>), hence a word of the
  grammar; and on a word of the grammar every stage of the matcher succeeds.
\<close>

lemma matches_Seq_iff:
  "matches (Seq r s) w = (\<exists>u v. w = u @ v \<and> matches r u \<and> matches s v)"
proof
  assume "matches (Seq r s) w"
  then obtain i where "matches r (take i w)" "matches s (drop i w)" by auto
  moreover have "w = take i w @ drop i w" by simp
  ultimately show "\<exists>u v. w = u @ v \<and> matches r u \<and> matches s v" by blast
next
  assume "\<exists>u v. w = u @ v \<and> matches r u \<and> matches s v"
  then obtain u v where w: "w = u @ v" and "matches r u" "matches s v" by blast
  then have "matches r (take (length u) w) \<and> matches s (drop (length u) w)" by simp
  moreover have "length u \<in> {0 .. length w}" by (simp add: w)
  ultimately show "matches (Seq r s) w" unfolding matches.simps by blast
qed

lemma matches_SeqI: "matches r u \<Longrightarrow> matches s v \<Longrightarrow> matches (Seq r s) (u @ v)"
  by (auto simp: matches_Seq_iff simp del: matches.simps(4))

lemma strip_prefix_iff: "strip_prefix p s = Some r \<longleftrightarrow> s = p @ r"
  by (induction p s rule: strip_prefix.induct) auto

lemma strip_prefix_append: "strip_prefix p (p @ s) = Some s"
  by (simp add: strip_prefix_iff)

lemma list_all_takeWhile: "list_all P (takeWhile P xs)"
  by (induction xs) auto

lemma match_directive_SomeD:
  assumes "match_directive s = Some (d, rest)"
  shows "s = d @ rest \<and> (d = ''enable'' \<or> d = ''disable'')"
  using assms
  by (auto simp: match_directive_def strip_prefix_iff split: option.splits)

lemma match_modifier_D:
  assumes "match_modifier s = (m, rest)"
  shows "s = (if m = [] then [] else CHR ''-'' # m) @ rest \<and>
         (m = [] \<or> m = ''line'' \<or> m = ''next-line'')"
  using assms
  by (auto simp: match_modifier_def strip_prefix_iff split: option.splits)

lemma match_rules_D:
  assumes "match_rules s = (r, rest)"
  shows "s = (if r = [] then [] else CHR '':'' # r) @ rest \<and> list_all (\<lambda>c. \<not> is_space c) r"
  using assms
  by (auto simp: match_rules_def list_all_takeWhile split: list.splits if_splits)

lemma split_last_space:
  assumes "CHR '' '' \<in> set ws"
  shows "\<exists>w1. ws = w1 @ CHR '' '' # rev (takeWhile (\<lambda>c. c \<noteq> CHR '' '') (rev ws))"
proof -
  let ?P = "\<lambda>c. c \<noteq> CHR '' ''"
  from assms have "dropWhile ?P (rev ws) \<noteq> []"
    by (simp add: dropWhile_eq_Nil_conv)
  then obtain z where z: "dropWhile ?P (rev ws) = CHR '' '' # z"
    using hd_dropWhile [of ?P "rev ws"] by (cases "dropWhile ?P (rev ws)") auto
  have "rev ws = takeWhile ?P (rev ws) @ dropWhile ?P (rev ws)" by simp
  then have "rev ws = takeWhile ?P (rev ws) @ CHR '' '' # z" by (simp only: z)
  then have "rev (rev ws) = rev (takeWhile ?P (rev ws) @ CHR '' '' # z)" by (rule arg_cong)
  then have "ws = rev z @ CHR '' '' # rev (takeWhile ?P (rev ws))" by simp
  then show ?thesis by blast
qed

lemma match_reason_SomeD:
  assumes "match_reason s = Some reason"
  shows "\<exists>ws2. s = ws2 @ (if reason = [] then [] else CHR '' '' # reason) \<and>
               list_all is_space ws2 \<and> CHR 0x0A \<notin> set reason"
proof (cases "dropWhile is_space s = []")
  case True
  with assms have r: "reason = []" by (simp add: match_reason_def)
  from True have eq: "takeWhile is_space s = s"
    by (metis append_Nil2 takeWhile_dropWhile_id)
  have "list_all is_space (takeWhile is_space s)" by (rule list_all_takeWhile)
  then have "list_all is_space s" by (simp only: eq)
  with r show ?thesis by (intro exI [of _ s]) simp
next
  case False
  let ?ws = "takeWhile is_space s"
  let ?w2 = "rev (takeWhile (\<lambda>c. c \<noteq> CHR '' '') (rev ?ws))"
  from assms False have sp: "CHR '' '' \<in> set ?ws"
    and reason: "reason = ?w2 @ dropWhile is_space s"
    and nl: "CHR 0x0A \<notin> set reason"
    by (auto simp: match_reason_def Let_def split: if_splits)
  from split_last_space [OF sp] obtain w1 where w1: "?ws = w1 @ CHR '' '' # ?w2" by blast
  have "list_all is_space ?ws" by (rule list_all_takeWhile)
  with w1 have all: "list_all is_space w1" by (metis list_all_append)
  have "s = ?ws @ dropWhile is_space s" by simp
  then have "s = (w1 @ CHR '' '' # ?w2) @ dropWhile is_space s" by (simp only: w1 [symmetric])
  then have "s = w1 @ CHR '' '' # reason" by (simp add: reason)
  moreover from False reason have "reason \<noteq> []" by simp
  ultimately show ?thesis using all nl by auto
qed

lemma directiveRegexp_SomeD:
  assumes "directiveRegexp text = Some (d, m, r, reason)"
  shows "\<exists>ws1 ws2.
           text = ''//'' @ ws1 @ ''revive:'' @ d @ (if m = [] then [] else CHR ''-'' # m) @
                  (if r = [] then [] else CHR '':'' # r) @ ws2 @
                  (if reason = [] then [] else CHR '' '' # reason) \<and>
           list_all is_space ws1 \<and> list_all is_space ws2 \<and>
           (d = ''enable'' \<or> d = ''disable'') \<and>
           (m = [] \<or> m = ''line'' \<or> m = ''next-line'') \<and>
           list_all (\<lambda>c. \<not> is_space c) r \<and> CHR 0x0A \<notin> set reason"
proof -
  from assms obtain s1 s2 s3 s4 s5 where
    s1: "strip_prefix ''//'' text = Some s1" and
    s2: "strip_prefix ''revive:'' (dropWhile is_space s1) = Some s2" and
    s3: "match_directive s2 = Some (d, s3)" and
    s4: "match_modifier s3 = (m, s4)" and
    s5: "match_rules s4 = (r, s5)" and
    s6: "match_reason s5 = Some reason"
    by (auto simp: directiveRegexp_def split: option.splits prod.splits)
  from s1 have t1: "text = ''//'' @ s1" by (simp only: strip_prefix_iff)
  from s2 have "dropWhile is_space s1 = ''revive:'' @ s2" by (simp only: strip_prefix_iff)
  then have t2: "s1 = takeWhile is_space s1 @ ''revive:'' @ s2"
    by (metis takeWhile_dropWhile_id)
  note t3 = match_directive_SomeD [OF s3]
  note t4 = match_modifier_D [OF s4]
  note t5 = match_rules_D [OF s5]
  from match_reason_SomeD [OF s6] obtain ws2 where
    t6: "s5 = ws2 @ (if reason = [] then [] else CHR '' '' # reason)" and
    w2: "list_all is_space ws2" and nl: "CHR 0x0A \<notin> set reason"
    by blast
  have "text = ''//'' @ takeWhile is_space s1 @ ''revive:'' @ d @
                  (if m = [] then [] else CHR ''-'' # m) @
                  (if r = [] then [] else CHR '':'' # r) @ ws2 @
                  (if reason = [] then [] else CHR '' '' # reason)"
    using t1 t2 t3 t4 t5 t6 by (metis append.assoc)
  with w2 nl t3 t4 t5 list_all_takeWhile [of is_space s1] show ?thesis by blast
qed

lemma in_class_Space: "in_class Space = is_space"
  by (rule ext) simp

lemma in_class_NonSpace: "in_class NonSpace = (\<lambda>c. \<not> is_space c)"
  by (rule ext) simp

lemma in_class_Dot: "in_class Dot = (\<lambda>c. c \<noteq> CHR 0x0A)"
  by (rule ext) simp

lemma matches_modifier:
  assumes "m = [] \<or> m = ''line'' \<or> m = ''next-line''"
  shows "matches (Opt (Seq (Lit ''-'') (Alt (Lit ''line'') (Lit ''next-line''))))
           (if m = [] then [] else CHR ''-'' # m)"
proof (cases "m = []")
  case True
  then show ?thesis by (simp only: matches.simps if_True simp_thms)
next
  case False
  with assms have "matches (Alt (Lit ''line'') (Lit ''next-line'')) m"
    by (simp only: matches.simps simp_thms)
  moreover have "matches (Lit ''-'') ''-''" by (simp only: matches.simps)
  ultimately have "matches (Seq (Lit ''-'') (Alt (Lit ''line'') (Lit ''next-line''))) (''-'' @ m)"
    by (rule matches_SeqI [rotated])
  then have "matches (Seq (Lit ''-'') (Alt (Lit ''line'') (Lit ''next-line''))) (CHR ''-'' # m)"
    by (simp only: append_Cons append_Nil)
  with False show ?thesis by (simp only: matches.simps if_False simp_thms)
qed

lemma matches_rules:
  assumes "list_all (\<lambda>c. \<not> is_space c) r"
  shows "matches (Opt (Seq (Lit '':'') (Many1 NonSpace))) (if r = [] then [] else CHR '':'' # r)"
proof (cases "r = []")
  case True
  then show ?thesis by (simp only: matches.simps if_True simp_thms)
next
  case False
  with assms have "matches (Many1 NonSpace) r"
    by (simp only: matches.simps in_class_NonSpace simp_thms)
  moreover have "matches (Lit '':'') '':''" by (simp only: matches.simps)
  ultimately have "matches (Seq (Lit '':'') (Many1 NonSpace)) ('':'' @ r)"
    by (rule matches_SeqI [rotated])
  then have "matches (Seq (Lit '':'') (Many1 NonSpace)) (CHR '':'' # r)"
    by (simp only: append_Cons append_Nil)
  with False show ?thesis by (simp only: matches.simps if_False simp_thms)
qed

lemma matches_reason:
  assumes "CHR 0x0A \<notin> set reason"
  shows "matches (Opt (Seq (Lit '' '') (Many1 Dot))) (if reason = [] then [] else CHR '' '' # reason)"
proof (cases "reason = []")
  case True
  then show ?thesis by (simp only: matches.simps if_True simp_thms)
next
  case False
  from assms have "list_all (\<lambda>c. c \<noteq> CHR 0x0A) reason" by (auto simp: list_all_iff)
  with False have "matches (Many1 Dot) reason"
    by (simp only: matches.simps in_class_Dot simp_thms)
  moreover have "matches (Lit '' '') '' ''" by (simp only: matches.simps)
  ultimately have "matches (Seq (Lit '' '') (Many1 Dot)) ('' '' @ reason)"
    by (rule matches_SeqI [rotated])
  then have "matches (Seq (Lit '' '') (Many1 Dot)) (CHR '' '' # reason)"
    by (simp only: append_Cons append_Nil)
  with False show ?thesis by (simp only: matches.simps if_False simp_thms)
qed

lemma directiveRegexp_sound:
  assumes "directiveRegexp text = Some (d, m, r, reason)"
  shows "matches directive_grammar text"
proof -
  from directiveRegexp_SomeD [OF assms] obtain ws1 ws2 where
    tx: "text = ''//'' @ ws1 @ ''revive:'' @ d @ (if m = [] then [] else CHR ''-'' # m) @
                  (if r = [] then [] else CHR '':'' # r) @ ws2 @
                  (if reason = [] then [] else CHR '' '' # reason)" and
    w1: "list_all is_space ws1" and w2: "list_all is_space ws2" and
    d: "d = ''enable'' \<or> d = ''disable''" and
    m: "m = [] \<or> m = ''line'' \<or> m = ''next-line''" and
    r: "list_all (\<lambda>c. \<not> is_space c) r" and nl: "CHR 0x0A \<notin> set reason"
    by blast
  have g1: "matches (Lit ''//'') ''//''" by (simp only: matches.simps)
  from w1 have g2: "matches (Many Space) ws1" by (simp only: matches.simps in_class_Space)
  have g3: "matches (Lit ''revive:'') ''revive:''" by (simp only: matches.simps)
  from d have g4: "matches (Alt (Lit ''enable'') (Lit ''disable'')) d"
    by (simp only: matches.simps)
  note g5 = matches_modifier [OF m]
  note g6 = matches_rules [OF r]
  from w2 have g7: "matches (Many Space) ws2" by (simp only: matches.simps in_class_Space)
  note g8 = matches_reason [OF nl]
  show ?thesis
    unfolding directive_grammar_def tx
    by (intro matches_SeqI g1 g2 g3 g4 g5 g6 g7 g8)
qed

lemma set_takeWhile_stop: "\<not> P c \<Longrightarrow> set (takeWhile P (xs @ c # ys)) \<subseteq> set xs"
  by (induction xs) auto

lemma match_reason_complete:
  assumes ws: "list_all is_space ws2"
      and t: "t = [] \<or> (\<exists>t'. t = CHR '' '' # t' \<and> t' \<noteq> [] \<and> CHR 0x0A \<notin> set t')"
  shows "match_reason (ws2 @ t) \<noteq> None"
proof (cases "t = []")
  case True
  with ws have "dropWhile is_space (ws2 @ t) = []"
    by (simp add: list_all_iff)
  then show ?thesis by (simp add: match_reason_def)
next
  case False
  with t obtain t' where t': "t = CHR '' '' # t'" and nl: "CHR 0x0A \<notin> set t'"
    by blast
  let ?s = "ws2 @ t"
  from ws have all: "\<And>x. x \<in> set ws2 \<Longrightarrow> is_space x" by (simp add: list_all_iff)
  have sp: "is_space (CHR '' '')" by (simp add: is_space_def)
  have tw: "takeWhile is_space ?s = ws2 @ CHR '' '' # takeWhile is_space t'"
    using all sp by (simp add: t' takeWhile_append2)
  have dw: "dropWhile is_space ?s = dropWhile is_space t'"
    using all sp by (simp add: t' dropWhile_append2)
  have in_ws: "CHR '' '' \<in> set (takeWhile is_space ?s)" by (simp add: tw)
  have "set (takeWhile (\<lambda>c. c \<noteq> CHR '' '') (rev (takeWhile is_space ?s))) \<subseteq>
        set (takeWhile is_space t')"
  proof -
    have "set (takeWhile (\<lambda>c. c \<noteq> CHR '' '') (rev (takeWhile is_space t') @ CHR '' '' # rev ws2)) \<subseteq>
          set (rev (takeWhile is_space t'))"
      by (rule set_takeWhile_stop) simp
    then show ?thesis by (simp add: tw)
  qed
  moreover have "set (takeWhile is_space t') \<subseteq> set t'" by (auto dest: set_takeWhileD)
  moreover have "set (dropWhile is_space t') \<subseteq> set t'" by (auto dest: set_dropWhileD)
  ultimately have "CHR 0x0A \<notin> set (rev (takeWhile (\<lambda>c. c \<noteq> CHR '' '') (rev (takeWhile is_space ?s))) @
                      dropWhile is_space ?s)"
    using nl by (auto simp: dw)
  with in_ws show ?thesis
    by (simp add: match_reason_def Let_def)
qed

lemma match_rules_none:
  "s = [] \<or> is_space (hd s) \<Longrightarrow> match_rules s = ([], s)"
  by (cases s) (auto simp: match_rules_def is_space_def)

lemma match_rules_some:
  assumes "r \<noteq> []" and "list_all (\<lambda>c. \<not> is_space c) r" and "s = [] \<or> is_space (hd s)"
  shows "match_rules (CHR '':'' # r @ s) = (r, s)"
proof -
  from assms(2) have all: "\<And>x. x \<in> set r \<Longrightarrow> \<not> is_space x" by (simp add: list_all_iff)
  from assms(3) have "takeWhile (\<lambda>x. \<not> is_space x) s = []" by (cases s) auto
  then have tw: "takeWhile (\<lambda>x. \<not> is_space x) (r @ s) = r"
    using all by (simp add: takeWhile_append2)
  from assms(3) have "dropWhile (\<lambda>x. \<not> is_space x) s = s" by (cases s) auto
  then have dw: "dropWhile (\<lambda>x. \<not> is_space x) (r @ s) = s"
    using all by (simp add: dropWhile_append2)
  from assms(1) show ?thesis by (simp add: match_rules_def tw dw)
qed

lemma match_modifier_none:
  "s = [] \<or> hd s \<noteq> CHR ''-'' \<Longrightarrow> match_modifier s = ([], s)"
  by (cases s) (auto simp: match_modifier_def)

lemma match_modifier_line: "match_modifier (''-line'' @ s) = (''line'', s)"
  by (simp add: match_modifier_def)

lemma match_modifier_next_line: "match_modifier (''-next-line'' @ s) = (''next-line'', s)"
  by (simp add: match_modifier_def)

lemma match_directive_enable: "match_directive (''enable'' @ s) = Some (''enable'', s)"
  by (simp add: match_directive_def)

lemma match_directive_disable: "match_directive (''disable'' @ s) = Some (''disable'', s)"
  by (simp add: match_directive_def)

lemma matches_modifier_D:
  assumes "matches (Opt (Seq (Lit ''-'') (Alt (Lit ''line'') (Lit ''next-line'')))) u"
  shows "u = [] \<or> u = ''-line'' \<or> u = ''-next-line''"
proof (cases "u = []")
  case True
  then show ?thesis by simp
next
  case False
  with assms have "matches (Seq (Lit ''-'') (Alt (Lit ''line'') (Lit ''next-line''))) u"
    by (simp only: matches.simps simp_thms)
  then obtain a b where "u = a @ b" "matches (Lit ''-'') a"
      "matches (Alt (Lit ''line'') (Lit ''next-line'')) b"
    unfolding matches_Seq_iff by blast
  then show ?thesis by (auto simp only: matches.simps append_Cons append_Nil)
qed

lemma matches_rules_D:
  assumes "matches (Opt (Seq (Lit '':'') (Many1 NonSpace))) u"
  shows "u = [] \<or> (\<exists>r. u = CHR '':'' # r \<and> r \<noteq> [] \<and> list_all (\<lambda>c. \<not> is_space c) r)"
proof (cases "u = []")
  case True
  then show ?thesis by simp
next
  case False
  with assms have "matches (Seq (Lit '':'') (Many1 NonSpace)) u"
    by (simp only: matches.simps simp_thms)
  then obtain a b where "u = a @ b" "matches (Lit '':'') a" "matches (Many1 NonSpace) b"
    unfolding matches_Seq_iff by blast
  then show ?thesis by (auto simp only: matches.simps append_Cons append_Nil in_class_NonSpace)
qed

lemma matches_reason_D:
  assumes "matches (Opt (Seq (Lit '' '') (Many1 Dot))) u"
  shows "u = [] \<or> (\<exists>t'. u = CHR '' '' # t' \<and> t' \<noteq> [] \<and> CHR 0x0A \<notin> set t')"
proof (cases "u = []")
  case True
  then show ?thesis by simp
next
  case False
  with assms have "matches (Seq (Lit '' '') (Many1 Dot)) u"
    by (simp only: matches.simps simp_thms)
  then obtain a b where "u = a @ b" "matches (Lit '' '') a" "matches (Many1 Dot) b"
    unfolding matches_Seq_iff by blast
  then show ?thesis
    by (auto simp only: matches.simps append_Cons append_Nil in_class_Dot list_all_iff)
qed

lemma tail_starts_with_space:
  assumes "list_all is_space ws2"
      and "t = [] \<or> (\<exists>t'. t = CHR '' '' # t' \<and> t' \<noteq> [] \<and> CHR 0x0A \<notin> set t')"
  shows "ws2 @ t = [] \<or> is_space (hd (ws2 @ t))"
proof (cases ws2)
  case Nil
  with assms(2) show ?thesis by (auto simp: is_space_def)
next
  case (Cons c cs)
  with assms(1) show ?thesis by simp
qed

lemma directiveRegexp_complete:
  assumes "matches directive_grammar text"
  shows "directiveRegexp text \<noteq> None"
proof -
  from assms obtain u1 u2 u3 u4 u5 u6 u7 u8 where
    tx: "text = u1 @ u2 @ u3 @ u4 @ u5 @ u6 @ u7 @ u8" and
    m1: "matches (Lit ''//'') u1" and
    m2: "matches (Many Space) u2" and
    m3: "matches (Lit ''revive:'') u3" and
    m4: "matches (Alt (Lit ''enable'') (Lit ''disable'')) u4" and
    m5: "matches (Opt (Seq (Lit ''-'') (Alt (Lit ''line'') (Lit ''next-line'')))) u5" and
    m6: "matches (Opt (Seq (Lit '':'') (Many1 NonSpace))) u6" and
    m7: "matches (Many Space) u7" and
    m8: "matches (Opt (Seq (Lit '' '') (Many1 Dot))) u8"
    unfolding directive_grammar_def matches_Seq_iff by blast
  from m1 have u1: "u1 = ''//''" by (simp only: matches.simps)
  from m2 have u2: "list_all is_space u2" by (simp only: matches.simps in_class_Space)
  from m3 have u3: "u3 = ''revive:''" by (simp only: matches.simps)
  from m4 have u4: "u4 = ''enable'' \<or> u4 = ''disable''" by (simp only: matches.simps)
  note u5 = matches_modifier_D [OF m5]
  note u6 = matches_rules_D [OF m6]
  from m7 have u7: "list_all is_space u7" by (simp only: matches.simps in_class_Space)
  note u8 = matches_reason_D [OF m8]
  let ?s5 = "u7 @ u8"
  let ?s4 = "u6 @ ?s5"
  let ?s3 = "u5 @ ?s4"
  let ?s2 = "u4 @ ?s3"
  have r5: "match_reason ?s5 \<noteq> None" by (rule match_reason_complete [OF u7 u8])
  have h5: "?s5 = [] \<or> is_space (hd ?s5)" by (rule tail_starts_with_space [OF u7 u8])
  have r4: "\<exists>r. match_rules ?s4 = (r, ?s5)"
  proof (cases "u6 = []")
    case True
    with h5 show ?thesis by (simp add: match_rules_none)
  next
    case False
    with u6 obtain r where "u6 = CHR '':'' # r" "r \<noteq> []" "list_all (\<lambda>c. \<not> is_space c) r"
      by blast
    with h5 show ?thesis using match_rules_some [of r ?s5] by simp
  qed
  have h4: "?s4 = [] \<or> hd ?s4 \<noteq> CHR ''-''"
  proof (cases "u6 = []")
    case True
    with h5 show ?thesis by (auto simp: is_space_def)
  next
    case False
    with u6 show ?thesis by auto
  qed
  have r3: "\<exists>m. match_modifier ?s3 = (m, ?s4)"
  proof -
    from u5 consider "u5 = []" | "u5 = ''-line''" | "u5 = ''-next-line''" by blast
    then show ?thesis
    proof cases
      case 1
      from match_modifier_none [OF h4] have "match_modifier ([] @ ?s4) = ([], ?s4)"
        by (simp only: append_Nil)
      then show ?thesis unfolding 1 by (rule exI)
    next
      case 2
      show ?thesis unfolding 2 using match_modifier_line [of ?s4] by (rule exI)
    next
      case 3
      show ?thesis unfolding 3 using match_modifier_next_line [of ?s4] by (rule exI)
    qed
  qed
  have r2: "match_directive ?s2 = Some (u4, ?s3)"
  proof -
    from u4 consider "u4 = ''enable''" | "u4 = ''disable''" by blast
    then show ?thesis
    proof cases
      case 1
      show ?thesis unfolding 1 by (rule match_directive_enable)
    next
      case 2
      show ?thesis unfolding 2 by (rule match_directive_disable)
    qed
  qed
  have r1: "dropWhile is_space (u2 @ ''revive:'' @ ?s2) = ''revive:'' @ ?s2"
    using u2 by (simp add: dropWhile_append2 list_all_iff is_space_def)
  from r3 obtain m where r3': "match_modifier ?s3 = (m, ?s4)" by blast
  from r4 obtain r where r4': "match_rules ?s4 = (r, ?s5)" by blast
  from r5 obtain reason where r5': "match_reason ?s5 = Some reason" by blast
  have "text = ''//'' @ (u2 @ ''revive:'' @ ?s2)" by (simp add: tx u1 u3)
  then have "directiveRegexp text = Some (u4, m, r, reason)"
    unfolding directiveRegexp_def
    by (simp only: strip_prefix_append r1 r2 r3' r4' r5' option.case prod.case)
  then show ?thesis by simp
qed

lemma directiveRegexp_matches: "(directiveRegexp text \<noteq> None) = matches directive_grammar text"
proof
  assume "directiveRegexp text \<noteq> None"
  then obtain d m r reason where "directiveRegexp text = Some (d, m, r, reason)"
    by (cases "directiveRegexp text") auto
  then show "matches directive_grammar text" by (rule directiveRegexp_sound)
next
  assume "matches directive_grammar text"
  then show "directiveRegexp text \<noteq> None" by (rule directiveRegexp_complete)
qed


section \<open>The claims\<close>




text \<open>
  Claim C2. \<open>lint\<close> returns an error exactly when one of the rules is applied to the file
  (not excluded) and yields an internal finding. Let \<open>r\<close> be the first such rule in the order of
  the rules and \<open>x\<close> the first internal finding it yields. Then \<open>lint\<close> returns the error made
  of the message of \<open>x\<close>, whatever the disabled intervals and the confidence threshold are,
  so neither the suppression step nor the confidence gate drops \<open>x\<close>; and what has been sent
  on the channel is what the rules before \<open>r\<close> have sent: nothing of \<open>r\<close> and nothing of the
  rules after it.
\<close>

theorem C2_internal_aborts:
  "(fst (lint f rules config keys) \<noteq> None) = (\<exists>r \<in> set rules. yieldsInternal f config r) \<and>
   (rules = pre @ r # post \<longrightarrow>
    (\<forall>p \<in> set pre. \<not> yieldsInternal f config p) \<longrightarrow>
    \<not> MustExclude (Rules config (Rule_Name r)) (Name f) \<longrightarrow>
    find IsInternal (Rule_Apply r f (Arguments (Rules config (Rule_Name r)))) = Some x \<longrightarrow>
      IsInternal x \<and>
      lintRules f config di rules sent =
        (Some (Failure x), snd (lintRules f config di pre sent)) \<and>
      lint f rules config keys =
        (Some (Failure x),
         snd (lintRules f config
                (fst (disabledIntervals f rules
                        (directiveSpecifyDisableReason \<in> Directives config) keys))
                pre
                (snd (disabledIntervals f rules
                        (directiveSpecifyDisableReason \<in> Directives config) keys)))))"
proof -
  have a: "(fst (lint f rules config keys) \<noteq> None) = (\<exists>r \<in> set rules. yieldsInternal f config r)"
    unfolding lint_def Let_def by (rule lintRules_error_iff)
  have b: "IsInternal x \<and>
      lintRules f config di rules sent =
        (Some (Failure x), snd (lintRules f config di pre sent)) \<and>
      lint f rules config keys =
        (Some (Failure x),
         snd (lintRules f config
                (fst (disabledIntervals f rules
                        (directiveSpecifyDisableReason \<in> Directives config) keys))
                pre
                (snd (disabledIntervals f rules
                        (directiveSpecifyDisableReason \<in> Directives config) keys))))"
    if rules: "rules = pre @ r # post"
      and before: "\<forall>p \<in> set pre. \<not> yieldsInternal f config p"
      and applied: "\<not> MustExclude (Rules config (Rule_Name r)) (Name f)"
      and internal: "find IsInternal (Rule_Apply r f (Arguments (Rules config (Rule_Name r)))) = Some x"
  proof -
    from internal have x: "IsInternal x" by (auto simp: find_Some_iff)
    note step = lintRules_abort [OF before applied internal]
    from x show ?thesis by (simp add: lint_def Let_def rules step)
  qed
  from a b show ?thesis by blast
qed

theorem C2_internal_aborts_witness:
  "lint abortSample
     [sampleRule ''A'' [sampleFinding '''' 2 2],
      sampleRule ''B'' [sampleFinding ''B'' 1 1, internalFinding, sampleFinding ''B'' 9 9],
      sampleRule ''C'' [sampleFinding ''C'' 4 4]]
     (sampleConfig {} 1) [''B''] =
   (Some ''fault'', [sampleFinding ''A'' 2 2])"
proof -
  let ?A = "sampleRule ''A'' [sampleFinding '''' 2 2]"
  let ?B = "sampleRule ''B'' [sampleFinding ''B'' 1 1, internalFinding, sampleFinding ''B'' 9 9]"
  let ?C = "sampleRule ''C'' [sampleFinding ''C'' 4 4]"
  let ?cfg = "sampleConfig {} 1"
  have rules: "[?A, ?B, ?C] = [?A] @ ?B # [?C]" by simp
  have before: "\<forall>p \<in> set [?A]. \<not> yieldsInternal abortSample ?cfg p"
    by (simp add: yieldsInternal_def sampleRule_def sampleConfig_def sampleFinding_def IsInternal_def)
  have applied: "\<not> MustExclude (Rules ?cfg (Rule_Name ?B)) (Name abortSample)"
    by (simp add: sampleConfig_def)
  have internal: "find IsInternal (Rule_Apply ?B abortSample (Arguments (Rules ?cfg (Rule_Name ?B)))) =
                    Some internalFinding"
    by (simp add: sampleRule_def sampleFinding_def internalFinding_def IsInternal_def)
  have sent: "snd (lintRules abortSample ?cfg
                   (fst (disabledIntervals abortSample [?A, ?B, ?C]
                           (directiveSpecifyDisableReason \<in> Directives ?cfg) [''B'']))
                   [?A]
                   (snd (disabledIntervals abortSample [?A, ?B, ?C]
                           (directiveSpecifyDisableReason \<in> Directives ?cfg) [''B'']))) =
              [sampleFinding ''A'' 2 2]"
    by (simp add: abortSample_def pipeline_simps directive_simps sampleRule_def sampleConfig_def
        sampleFinding_def normalizeFailure_def IsInternal_def)
  have msg: "Failure internalFinding = ''fault''"
    by (simp add: internalFinding_def sampleFinding_def)
  from C2_internal_aborts [of abortSample "[?A, ?B, ?C]" ?cfg "[''B'']" "[?A]" ?B "[?C]"
      internalFinding] rules before applied internal
  have "lint abortSample [?A, ?B, ?C] ?cfg [''B''] =
          (Some (Failure internalFinding),
           snd (lintRules abortSample ?cfg
                   (fst (disabledIntervals abortSample [?A, ?B, ?C]
                           (directiveSpecifyDisableReason \<in> Directives ?cfg) [''B'']))
                   [?A]
                   (snd (disabledIntervals abortSample [?A, ?B, ?C]
                           (directiveSpecifyDisableReason \<in> Directives ?cfg) [''B'']))))"
    by blast
  then show ?thesis by (simp only: sent msg)
qed

text \<open>
  Claim C3 says that a disable event is never appended while the state pending for the rule
  is already disabled. The guard of \<open>handleConfig\<close> compares with the last event only when
  the list has more than one event. In the file \<open>twoDisablesSample\<close> the rule \<open>R\<close> is
  disabled on line 1 and again on line 3: the second event is appended to the list of one
  event, the two events pair up to the interval from line 1 to line 3, and a finding of \<open>R\<close>
  on line 5 is not suppressed. On a list of no event or of more than one event the guard
  does keep out an event equal to the pending state (\<open>handleConfig_dedup\<close>).
\<close>

theorem C3_duplicate_disable:
  "fst (handleComments twoDisablesSample ([] :: unit Rule list) False (Comments twoDisablesSample)
          (Map.empty, [])) ''R'' =
     Some [\<lparr>enabled = False, position = 1\<rparr>, \<lparr>enabled = False, position = 3\<rparr>] \<and>
   \<not> pendingEnabled [\<lparr>enabled = False, position = 1\<rparr>] \<and>
   handleConfig False 3 ''R'' [''R'' \<mapsto> [\<lparr>enabled = False, position = 1\<rparr>]] ''R'' =
     Some [\<lparr>enabled = False, position = 1\<rparr>, \<lparr>enabled = False, position = 3\<rparr>] \<and>
   fst (disabledIntervals twoDisablesSample ([] :: unit Rule list) False [''R'']) ''R'' =
     Some [closedInterval twoDisablesSample ''R'' 1 3] \<and>
   filterFailures [sampleFinding ''R'' 2 2, sampleFinding ''R'' 5 5]
     (fst (disabledIntervals twoDisablesSample ([] :: unit Rule list) False [''R''])) =
   [sampleFinding ''R'' 5 5]"
  by (simp add: twoDisablesSample_def pipeline_simps directive_simps pendingEnabled_def
      sampleFinding_def startLine_def endLine_def)

text \<open>
  Claim C4 gives the grammar \<open>spec_grammar\<close>, in which any white space may stand in front of
  the reason. The comment \<open>//revive:disable\<close>, a tab, \<open>generated\<close> is a word of that grammar;
  \<open>directiveRegexp\<close> does not match it, since it wants a space character in front of the
  reason, and the comment is ignored.
\<close>

theorem C4_counterexample:
  "matches spec_grammar (''//revive:disable'' @ [CHR 0x09] @ ''generated'') \<and>
   directiveRegexp (''//revive:disable'' @ [CHR 0x09] @ ''generated'') = None \<and>
   handleCommentLine (sampleFile []) [sampleRule ''R'' []] False 3
     \<lparr>Slash = 200, Text = ''//revive:disable'' @ [CHR 0x09] @ ''generated''\<rparr> (Map.empty, []) =
   (Map.empty, [])"
proof -
  have "matches (Seq (Many1 Space) (Many1 Dot)) ([CHR 0x09] @ ''generated'')"
    by (rule matches_SeqI) (simp_all add: is_space_def)
  then have tail: "matches (Opt (Seq (Many1 Space) (Many1 Dot))) ([CHR 0x09] @ ''generated'')"
    by (simp only: matches.simps simp_thms)
  have "matches spec_grammar
          (''//'' @ [] @ ''revive:'' @ ''disable'' @ [] @ [] @ ([CHR 0x09] @ ''generated''))"
    unfolding spec_grammar_def
    by (intro matches_SeqI tail) simp_all
  then have a: "matches spec_grammar (''//revive:disable'' @ [CHR 0x09] @ ''generated'')"
    by (simp only: append_Cons append_Nil)
  have b: "directiveRegexp (''//revive:disable'' @ [CHR 0x09] @ ''generated'') = None"
    by (simp add: directive_simps)
  then have c: "handleCommentLine (sampleFile []) [sampleRule ''R'' []] False 3
     \<lparr>Slash = 200, Text = ''//revive:disable'' @ [CHR 0x09] @ ''generated''\<rparr> (Map.empty, []) =
     (Map.empty, [])"
    by (simp add: handleCommentLine_def)
  from a b c show ?thesis by (simp only: simp_thms)
qed

text \<open>
  Claim C4, amended. A comment is handled as a directive exactly when its whole text is a
  word of \<open>directive_grammar\<close>, the expression of \<open>directiveRegexp\<close>: the reason is introduced
  by one space character after optional white space, and white space may end the text. A
  comment that does not match leaves the map of events and the channel as they were. When
  the text matches, it is made of the four groups in this order: the action, the scope
  modifier after a hyphen, the rule names after a colon, the reason after a space.
\<close>

theorem C4_directive_grammar:
  "(directiveRegexp text \<noteq> None) = matches directive_grammar text \<and>
   (directiveRegexp (Text c) = None \<longrightarrow> handleCommentLine f rules must line c st = st) \<and>
   (directiveRegexp text = Some (d, m, r, reason) \<longrightarrow>
      (\<exists>ws1 ws2.
         text = ''//'' @ ws1 @ ''revive:'' @ d @ (if m = [] then [] else CHR ''-'' # m) @
                (if r = [] then [] else CHR '':'' # r) @ ws2 @
                (if reason = [] then [] else CHR '' '' # reason) \<and>
         list_all is_space ws1 \<and> list_all is_space ws2 \<and>
         (d = ''enable'' \<or> d = ''disable'') \<and>
         (m = [] \<or> m = ''line'' \<or> m = ''next-line'') \<and>
         list_all (\<lambda>c. \<not> is_space c) r \<and> CHR 0x0A \<notin> set reason))"
proof -
  have a: "(directiveRegexp text \<noteq> None) = matches directive_grammar text"
    by (rule directiveRegexp_matches)
  have b: "directiveRegexp (Text c) = None \<longrightarrow> handleCommentLine f rules must line c st = st"
    by (simp add: handleCommentLine_def)
  have c: "directiveRegexp text = Some (d, m, r, reason) \<longrightarrow>
      (\<exists>ws1 ws2.
         text = ''//'' @ ws1 @ ''revive:'' @ d @ (if m = [] then [] else CHR ''-'' # m) @
                (if r = [] then [] else CHR '':'' # r) @ ws2 @
                (if reason = [] then [] else CHR '' '' # reason) \<and>
         list_all is_space ws1 \<and> list_all is_space ws2 \<and>
         (d = ''enable'' \<or> d = ''disable'') \<and>
         (m = [] \<or> m = ''line'' \<or> m = ''next-line'') \<and>
         list_all (\<lambda>c. \<not> is_space c) r \<and> CHR 0x0A \<notin> set reason)"
    by (rule impI) (rule directiveRegexp_SomeD)
  from a b c show ?thesis by (intro conjI)
qed

theorem C4_directive_grammar_witness:
  "directiveRegexp ''//revive:disable:'' = None \<and>
   \<not> matches directive_grammar ''//revive:disable:'' \<and>
   handleCommentLine (sampleFile []) [sampleRule ''R'' []] False 3
     \<lparr>Slash = 200, Text = ''//revive:disable:''\<rparr> (Map.empty, []) = (Map.empty, []) \<and>
   directiveRegexp ''// revive:enable-next-line:R,Q  as agreed'' =
     Some (''enable'', ''next-line'', ''R,Q'', ''as agreed'') \<and>
   matches directive_grammar ''// revive:enable-next-line:R,Q  as agreed''"
proof -
  let ?c = "\<lparr>Slash = 200, Text = ''//revive:disable:''\<rparr>"
  have n0: "directiveRegexp ''//revive:disable:'' = None"
    by (simp add: directive_simps)
  then have n: "directiveRegexp (Text ?c) = None" by simp
  have s: "directiveRegexp ''// revive:enable-next-line:R,Q  as agreed'' =
             Some (''enable'', ''next-line'', ''R,Q'', ''as agreed'')"
    by (simp add: directive_simps)
  note t1 = C4_directive_grammar [of "''//revive:disable:''" ?c "sampleFile []"
      "[sampleRule ''R'' []]" False 3 "(Map.empty, [])"]
  note t2 = C4_directive_grammar [of "''// revive:enable-next-line:R,Q  as agreed''"]
  from t1 n0 have a: "\<not> matches directive_grammar ''//revive:disable:''" by blast
  from t1 n have b: "handleCommentLine (sampleFile []) [sampleRule ''R'' []] False 3 ?c
                       (Map.empty, []) = (Map.empty, [])"
    by blast
  from t2 s have c: "matches directive_grammar ''// revive:enable-next-line:R,Q  as agreed''"
    by (metis option.distinct(1))
  from n0 a b s c show ?thesis by (simp only: simp_thms)
qed








text \<open>
  Claim C8 says that a finding whose position is already set keeps it. The finding
  \<open>presetFinding\<close> has its position set to line 7 and carries a node of line 2:
  the normalisation replaces the position by the one of the node.
\<close>

theorem C8_counterexample:
  "Node presetFinding = Some \<lparr>Node_Pos = 120, Node_End = 130\<rparr> \<and>
   Position presetFinding =
     \<lparr>Start = \<lparr>Filename = ''a.go'', Offset = 0, Line = 7, Column = 1\<rparr>,
      End = \<lparr>Filename = ''a.go'', Offset = 0, Line = 7, Column = 1\<rparr>\<rparr> \<and>
   normalizeFailures (sampleFile []) (sampleRule ''R'' []) [presetFinding] =
     Inr [presetFinding
            \<lparr>Position :=
               \<lparr>Start = \<lparr>Filename = ''a.go'', Offset = 120, Line = 2, Column = 21\<rparr>,
                End = \<lparr>Filename = ''a.go'', Offset = 130, Line = 2, Column = 31\<rparr>\<rparr>\<rparr>] \<and>
   Position (normalizeFailure (sampleFile []) (sampleRule ''R'' []) presetFinding) \<noteq>
     Position presetFinding"
  by (simp add: presetFinding_def sampleFinding_def normalizeFailure_def IsInternal_def
      ToFailurePosition_def ToPosition_def sampleFile_def samplePosition_def)

text \<open>
  Claim C8, amended. When no finding of the rule is internal, the normalisation maps each
  finding as follows and keeps their order: the rule name becomes the name of the current
  rule exactly when it is empty; the position becomes the one resolved from the node
  whenever the finding carries a node, whether or not a position was set, and stays as it
  is when the finding carries no node; the other fields are unchanged.
\<close>

theorem C8_normalization:
  "normalizeFailures f currentRule failures =
     (case find IsInternal failures of
        Some failure \<Rightarrow> Inl (Failure failure)
      | None \<Rightarrow> Inr (map (normalizeFailure f currentRule) failures)) \<and>
   RuleName (normalizeFailure f currentRule failure) =
     (if RuleName failure = '''' then Rule_Name currentRule else RuleName failure) \<and>
   Position (normalizeFailure f currentRule failure) =
     (case Node failure of
        None \<Rightarrow> Position failure
      | Some n \<Rightarrow> ToFailurePosition (Node_Pos n) (Node_End n) f) \<and>
   Failure (normalizeFailure f currentRule failure) = Failure failure \<and>
   Internal (normalizeFailure f currentRule failure) = Internal failure \<and>
   Node (normalizeFailure f currentRule failure) = Node failure \<and>
   Confidence (normalizeFailure f currentRule failure) = Confidence failure"
  by (simp add: normalizeFailures_find normalizeFailure_def Let_def split: option.splits)

text \<open>
  Claim C9. The only choice Go makes in the pipeline is the order in which
  \<open>getEnabledDisabledIntervals\<close> visits the keys of the map of events (rules are functions
  of the file and their arguments here). There is always such an order, and for any two of
  them \<open>disabledIntervals\<close> returns the same intervals and the same findings, and \<open>lint\<close>
  returns the same error and sends the same findings in the same order.
\<close>

theorem C9_deterministic:
  "(\<exists>keys. range_order keys
       (eventsOfFile f rules (directiveSpecifyDisableReason \<in> Directives config))) \<and>
   (range_order keys (eventsOfFile f rules (directiveSpecifyDisableReason \<in> Directives config)) \<longrightarrow>
    range_order keys' (eventsOfFile f rules (directiveSpecifyDisableReason \<in> Directives config)) \<longrightarrow>
      disabledIntervals f rules (directiveSpecifyDisableReason \<in> Directives config) keys =
        disabledIntervals f rules (directiveSpecifyDisableReason \<in> Directives config) keys' \<and>
      lint f rules config keys = lint f rules config keys')"
proof -
  let ?must = "directiveSpecifyDisableReason \<in> Directives config"
  have "finite (dom (eventsOfFile f rules ?must))"
    unfolding eventsOfFile_def by (rule finite_dom_handleComments) simp
  then have ex: "\<exists>keys. range_order keys (eventsOfFile f rules ?must)"
    by (rule range_order_exists)
  have eq: "disabledIntervals f rules ?must keys = disabledIntervals f rules ?must keys'"
    if "range_order keys (eventsOfFile f rules ?must)"
      and "range_order keys' (eventsOfFile f rules ?must)"
    using that
    by (simp add: disabledIntervals_def Let_def eventsOfFile_def getEnabledDisabledIntervals_eq)
  then have "lint f rules config keys = lint f rules config keys'"
    if "range_order keys (eventsOfFile f rules ?must)"
      and "range_order keys' (eventsOfFile f rules ?must)"
    using that by (simp add: lint_def Let_def)
  with ex eq show ?thesis by blast
qed

theorem C9_deterministic_witness:
  "range_order [''R'', ''Q''] (eventsOfFile twoRulesSample
       [sampleRule ''R'' [sampleFinding '''' 4 4, sampleFinding '''' 1 1],
        sampleRule ''Q'' [sampleFinding '''' 4 4, sampleFinding '''' 8 8]] False) \<and>
   range_order [''Q'', ''R''] (eventsOfFile twoRulesSample
       [sampleRule ''R'' [sampleFinding '''' 4 4, sampleFinding '''' 1 1],
        sampleRule ''Q'' [sampleFinding '''' 4 4, sampleFinding '''' 8 8]] False) \<and>
   lint twoRulesSample
       [sampleRule ''R'' [sampleFinding '''' 4 4, sampleFinding '''' 1 1],
        sampleRule ''Q'' [sampleFinding '''' 4 4, sampleFinding '''' 8 8]]
       (sampleConfig {} 0) [''R'', ''Q''] =
   lint twoRulesSample
       [sampleRule ''R'' [sampleFinding '''' 4 4, sampleFinding '''' 1 1],
        sampleRule ''Q'' [sampleFinding '''' 4 4, sampleFinding '''' 8 8]]
       (sampleConfig {} 0) [''Q'', ''R''] \<and>
   lint twoRulesSample
       [sampleRule ''R'' [sampleFinding '''' 4 4, sampleFinding '''' 1 1],
        sampleRule ''Q'' [sampleFinding '''' 4 4, sampleFinding '''' 8 8]]
       (sampleConfig {} 0) [''Q'', ''R''] =
   (None, [sampleFinding ''R'' 1 1, sampleFinding ''Q'' 8 8])"
proof -
  let ?rules = "[sampleRule ''R'' [sampleFinding '''' 4 4, sampleFinding '''' 1 1],
                 sampleRule ''Q'' [sampleFinding '''' 4 4, sampleFinding '''' 8 8]]"
  let ?cfg = "sampleConfig {} 0"
  have must: "(directiveSpecifyDisableReason \<in> Directives ?cfg) = False"
    by (simp add: sampleConfig_def)
  have ev: "eventsOfFile twoRulesSample ?rules False =
              [''R'' \<mapsto> [\<lparr>enabled = False, position = 2\<rparr>],
               ''Q'' \<mapsto> [\<lparr>enabled = False, position = 2\<rparr>, \<lparr>enabled = True, position = 6\<rparr>]]"
    by (simp add: eventsOfFile_def twoRulesSample_def pipeline_simps directive_simps)
  have ro: "range_order [''R'', ''Q''] (eventsOfFile twoRulesSample ?rules False)"
    by (auto simp: ev range_order_def)
  have ro': "range_order [''Q'', ''R''] (eventsOfFile twoRulesSample ?rules False)"
    by (auto simp: ev range_order_def)
  have run: "lint twoRulesSample ?rules ?cfg [''Q'', ''R''] =
               (None, [sampleFinding ''R'' 1 1, sampleFinding ''Q'' 8 8])"
    by (simp add: lint_def twoRulesSample_def pipeline_simps directive_simps sampleRule_def
        sampleConfig_def sampleFinding_def normalizeFailure_def IsInternal_def
        directiveSpecifyDisableReason_def)
  from C9_deterministic [of twoRulesSample ?rules ?cfg "[''R'', ''Q'']" "[''Q'', ''R'']"] ro ro'
  have "lint twoRulesSample ?rules ?cfg [''R'', ''Q''] = lint twoRulesSample ?rules ?cfg [''Q'', ''R'']"
    by (simp only: must simp_thms)
  with ro ro' run show ?thesis by (simp only: simp_thms)
qed

text \<open>
  Claim C10 says that an \<open>enable\<close> directive met while no disable is pending leaves the
  rule with an empty list of intervals. In \<open>enableAfterPairSample\<close> the rule \<open>R\<close> is disabled
  on line 3 and enabled on line 7; the \<open>enable\<close> directive on line 9 meets no pending disable,
  and the list of \<open>R\<close> holds the interval from line 3 to line 7, so the finding of \<open>R\<close> on
  line 5 is dropped. In \<open>enableLineSample\<close> no event is recorded when \<open>//revive:enable-line:R\<close>
  is met on line 4: \<open>handleRules\<close> records a disable after the enable, and the list of \<open>R\<close>
  holds the interval from line 4 to \<open>math.MaxInt32\<close>.
\<close>

theorem C10_counterexample:
  "fst (handleComments enableAfterPairSample ([] :: unit Rule list) False
          (take 2 (Comments enableAfterPairSample)) (Map.empty, [])) ''R'' =
     Some [\<lparr>enabled = False, position = 3\<rparr>, \<lparr>enabled = True, position = 7\<rparr>] \<and>
   noPendingDisable [\<lparr>enabled = False, position = 3\<rparr>, \<lparr>enabled = True, position = 7\<rparr>] \<and>
   fst (disabledIntervals enableAfterPairSample ([] :: unit Rule list) False [''R'']) ''R'' =
     Some [closedInterval enableAfterPairSample ''R'' 3 7] \<and>
   filterFailures [sampleFinding ''R'' 5 5, sampleFinding ''R'' 9 9]
     (fst (disabledIntervals enableAfterPairSample ([] :: unit Rule list) False [''R''])) =
     [sampleFinding ''R'' 9 9] \<and>
   fst (disabledIntervals enableLineSample ([] :: unit Rule list) False [''R'']) ''R'' =
     Some [closedInterval enableLineSample ''R'' 4 MaxInt32] \<and>
   filterFailures [sampleFinding ''R'' 2 2, sampleFinding ''R'' 9 9]
     (fst (disabledIntervals enableLineSample ([] :: unit Rule list) False [''R''])) =
     [sampleFinding ''R'' 2 2]"
  by (simp add: enableAfterPairSample_def enableLineSample_def pipeline_simps directive_simps
      sampleFinding_def noPendingDisable_def pendingEnabled_def)

text \<open>
  Claim C10, amended. A persistent \<open>enable\<close> directive (no scope modifier) naming the rule
  \<open>R\<close>, handled while no event is recorded for \<open>R\<close> and followed by no further toggle event
  for \<open>R\<close>, binds \<open>R\<close> to the empty list of events; the map of intervals then binds \<open>R\<close> to
  the empty list of intervals, the suppression step keeps every finding of \<open>R\<close>, in order,
  and it gives the same result as with \<open>R\<close> removed from the map. For every map of
  intervals that binds a rule to the empty list, every finding of the rule is kept and the
  result is the one for the map without the rule.
\<close>

theorem C10_enable_without_disable:
  assumes directive: "directiveRegexp (Text c) = Some (''enable'', '''', rulesText, reason)"
      and names: "ruleNamesOf rulesText = [R]"
      and none: "eventsOf m R = []"
      and st: "st = handleCommentLine f rules must L c (m, sent)"
      and ro: "range_order keys (fst st)"
  shows "fst st = m(R \<mapsto> []) \<and>
         getEnabledDisabledIntervals f (fst st) keys Map.empty R = Some [] \<and>
         filter (\<lambda>x. RuleName x = R)
           (filterFailures xs (getEnabledDisabledIntervals f (fst st) keys Map.empty)) =
           filter (\<lambda>x. RuleName x = R) xs \<and>
         filterFailures xs (getEnabledDisabledIntervals f (fst st) keys Map.empty) =
           filterFailures xs ((getEnabledDisabledIntervals f (fst st) keys Map.empty)(R := None)) \<and>
         (di R = Some [] \<longrightarrow>
            filter (\<lambda>x. RuleName x = R) (filterFailures xs di) =
              filter (\<lambda>x. RuleName x = R) xs \<and>
            filterFailures xs di = filterFailures xs (di(R := None)))"
proof -
  have "handleCommentLine f rules must L c (m, sent) = (handleRule '''' True L R m, sent)"
    using handleCommentLine_fst_applied [OF directive names, of must f rules L "(m, sent)"]
    by simp
  with none have m': "fst st = m(R \<mapsto> [])"
    by (simp add: st handleRule_def handleConfig_eq)
  from ro have "range_order keys (m(R \<mapsto> []))" by (simp add: m')
  then have di: "getEnabledDisabledIntervals f (fst st) keys Map.empty =
                   (intervalsOfEvents f m)(R \<mapsto> [])"
    by (simp add: m' getEnabledDisabledIntervals_eq intervalsOfEvents_upd)
  have e: "((intervalsOfEvents f m)(R \<mapsto> [])) R = Some []" by simp
  have a: "getEnabledDisabledIntervals f (fst st) keys Map.empty R = Some []"
    by (simp add: di)
  note b = filter_rule_keptBy
    [of "getEnabledDisabledIntervals f (fst st) keys Map.empty" R xs, OF a]
  note c = filterFailures_empty_list
    [of "getEnabledDisabledIntervals f (fst st) keys Map.empty" R xs, OF a]
  have d: "di R = Some [] \<longrightarrow>
            filter (\<lambda>x. RuleName x = R) (filterFailures xs di) =
              filter (\<lambda>x. RuleName x = R) xs \<and>
            filterFailures xs di = filterFailures xs (di(R := None))"
    using filter_rule_keptBy [of di R xs] filterFailures_empty_list [of di R xs] by blast
  from m' a b c d show ?thesis by (intro conjI)
qed

theorem C10_enable_without_disable_witness:
  "directiveRegexp ''//revive:enable:R'' = Some (''enable'', '''', ''R'', '''') \<and>
   fst (handleCommentLine (sampleFile []) ([] :: unit Rule list) False 4
          \<lparr>Slash = 300, Text = ''//revive:enable:R''\<rparr> (Map.empty, [])) = [''R'' \<mapsto> []] \<and>
   getEnabledDisabledIntervals (sampleFile [])
     (fst (handleCommentLine (sampleFile []) ([] :: unit Rule list) False 4
             \<lparr>Slash = 300, Text = ''//revive:enable:R''\<rparr> (Map.empty, [])))
     [''R''] Map.empty ''R'' = Some [] \<and>
   filter (\<lambda>x. RuleName x = ''R'')
     (filterFailures [sampleFinding ''R'' 4 4, sampleFinding ''Q'' 4 4, sampleFinding ''R'' 1 9]
        (getEnabledDisabledIntervals (sampleFile [])
           (fst (handleCommentLine (sampleFile []) ([] :: unit Rule list) False 4
                   \<lparr>Slash = 300, Text = ''//revive:enable:R''\<rparr> (Map.empty, [])))
           [''R''] Map.empty)) =
     [sampleFinding ''R'' 4 4, sampleFinding ''R'' 1 9] \<and>
   filterFailures [sampleFinding ''R'' 4 4, sampleFinding ''Q'' 4 4, sampleFinding ''R'' 1 9]
     [''R'' \<mapsto> []] =
     [sampleFinding ''R'' 4 4, sampleFinding ''Q'' 4 4, sampleFinding ''R'' 1 9]"
proof -
  let ?c = "\<lparr>Slash = 300, Text = ''//revive:enable:R''\<rparr>"
  let ?st = "handleCommentLine (sampleFile []) ([] :: unit Rule list) False 4 ?c (Map.empty, [])"
  let ?xs = "[sampleFinding ''R'' 4 4, sampleFinding ''Q'' 4 4, sampleFinding ''R'' 1 9]"
  have d0: "directiveRegexp ''//revive:enable:R'' = Some (''enable'', '''', ''R'', '''')"
    by (simp add: directive_simps)
  then have d: "directiveRegexp (Text ?c) = Some (''enable'', '''', ''R'', '''')" by simp
  have n: "ruleNamesOf ''R'' = [''R'']"
    by (simp add: directive_simps)
  have none: "eventsOf Map.empty ''R'' = []" by (simp add: eventsOf_def)
  have st: "?st = ?st" by (rule refl)
  have ro: "range_order [''R''] (fst ?st)"
    by (simp add: range_order_def handleCommentLine_def directive_simps handleRule_def
        handleConfig_def)
  have e1: "filter (\<lambda>x. RuleName x = ''R'') ?xs = [sampleFinding ''R'' 4 4, sampleFinding ''R'' 1 9]"
    by (simp add: sampleFinding_def)
  have e2: "filterFailures ?xs (([''R'' \<mapsto> []])(''R'' := None)) = ?xs"
    by (simp add: sampleFinding_def)
  have e3: "[''R'' \<mapsto> []] ''R'' = Some []" by simp
  note th = C10_enable_without_disable [OF d n none st ro, of ?xs "[''R'' \<mapsto> []]"]
  from th have a: "fst ?st = [''R'' \<mapsto> []]" by blast
  from th have b: "getEnabledDisabledIntervals (sampleFile []) (fst ?st) [''R''] Map.empty ''R'' = Some []"
    by blast
  from th have c: "filter (\<lambda>x. RuleName x = ''R'')
     (filterFailures ?xs (getEnabledDisabledIntervals (sampleFile []) (fst ?st) [''R''] Map.empty)) =
     filter (\<lambda>x. RuleName x = ''R'') ?xs"
    by blast
  from th e3 have "filterFailures ?xs [''R'' \<mapsto> []] =
      filterFailures ?xs (([''R'' \<mapsto> []])(''R'' := None))"
    by blast
  then have f: "filterFailures ?xs [''R'' \<mapsto> []] = ?xs" by (simp only: e2)
  from d0 a b c [unfolded e1] f show ?thesis by (simp only: simp_thms)
qed

end
